theory Spec2Isabelle
  imports Complex_Main
begin

section \<open>JavaScript values\<close>

text \<open>
  The balance engine of the 401(k) portal (\<^verbatim>\<open>src/utils/investmentUtils.js\<close>) computes
  with JavaScript numbers, which are IEEE 754 doubles. A finite number is modelled as
  the real it stands for, and every operation rounds its exact result to the nearest
  number with a significand of 53 bits, ties to the even significand (\<open>dbl\<close>). The
  exponent is not bounded: overflow to infinity above \<open>2\<^sup>1\<^sup>0\<^sup>2\<^sup>4\<close> and the coarser
  spacing of the subnormal numbers below \<open>2\<^sup>-\<^sup>1\<^sup>0\<^sup>2\<^sup>2\<close> are not modelled.
\<close>

fun bits :: "nat \<Rightarrow> nat" where
  "bits n = (if n = 0 then 0 else Suc (bits (n div 2)))"

declare bits.simps [simp del]

text \<open>The exponent \<open>e\<close> of \<open>x\<close>: \<open>2\<^sup>e \<le> |x| < 2\<^sup>e\<^sup>+\<^sup>1\<close>.\<close>

definition expo :: "real \<Rightarrow> int" where
  "expo x =
     (if 1 \<le> \<bar>x\<bar> then int (bits (nat \<lfloor>\<bar>x\<bar>\<rfloor>)) - 1
      else let k = int (bits (nat \<lfloor>1 / \<bar>x\<bar>\<rfloor>)) - 1
           in if \<bar>x\<bar> * 2 powi k = 1 then - k else - k - 1)"

definition round_even :: "real \<Rightarrow> int" where
  "round_even y =
     (let f = \<lfloor>y\<rfloor>; d = y - of_int f
      in if d < 1 / 2 then f else if 1 / 2 < d then f + 1 else if even f then f else f + 1)"

definition dbl :: "real \<Rightarrow> real" where
  "dbl x =
     (if x = 0 then 0
      else of_int (round_even (x / 2 powi (expo x - 52))) * 2 powi (expo x - 52))"

text \<open>
  A number is a double, one of the two infinities or NaN; \<open>Null\<close> is the value that
  \<^verbatim>\<open>JSON.parse(JSON.stringify(x))\<close> puts in the place of a number that is not finite.
  Arithmetic applies ToNumber first, so \<open>Null\<close> counts as 0 (\<open>val\<close>). The sign of zero
  is not modelled (every divisor in the engine is a \<^verbatim>\<open>nav\<close> read from a JSON copy, where
  -0 has become 0, the constant 100, a sum already tested positive, or an array length).
\<close>

datatype jsnum = Fin real | PInf | NInf | NaN | Null

datatype jsval = Undefined | Str string | Num jsnum

fun val :: "jsnum \<Rightarrow> real" where
  "val (Fin r) = r"
| "val _ = 0"

definition is_inf :: "jsnum \<Rightarrow> bool" where
  "is_inf a = (a = PInf \<or> a = NInf)"

definition sign_of :: "jsnum \<Rightarrow> real" where
  "sign_of a = (if a = PInf then 1 else if a = NInf then - 1 else sgn (val a))"

definition jneg :: "jsnum \<Rightarrow> jsnum" where
  "jneg a = (if a = NaN then NaN else if a = PInf then NInf else if a = NInf then PInf
             else Fin (- val a))"

definition jadd :: "jsnum \<Rightarrow> jsnum \<Rightarrow> jsnum" where
  "jadd a b =
     (if a = NaN \<or> b = NaN then NaN
      else if a = PInf then (if b = NInf then NaN else PInf)
      else if a = NInf then (if b = PInf then NaN else NInf)
      else if b = PInf then PInf
      else if b = NInf then NInf
      else Fin (dbl (val a + val b)))"

definition jsub :: "jsnum \<Rightarrow> jsnum \<Rightarrow> jsnum" where
  "jsub a b = jadd a (jneg b)"

definition jmul :: "jsnum \<Rightarrow> jsnum \<Rightarrow> jsnum" where
  "jmul a b =
     (if a = NaN \<or> b = NaN then NaN
      else if is_inf a \<or> is_inf b then
        (if sign_of a * sign_of b = 0 then NaN
         else if 0 < sign_of a * sign_of b then PInf else NInf)
      else Fin (dbl (val a * val b)))"

definition jdiv :: "jsnum \<Rightarrow> jsnum \<Rightarrow> jsnum" where
  "jdiv a b =
     (if a = NaN \<or> b = NaN then NaN
      else if is_inf a then
        (if is_inf b then NaN
         else if (a = PInf) = (0 \<le> val b) then PInf else NInf)
      else if is_inf b then Fin 0
      else if val b = 0 then
        (if val a = 0 then NaN else if 0 < val a then PInf else NInf)
      else Fin (dbl (val a / val b)))"

definition jlt :: "jsnum \<Rightarrow> jsnum \<Rightarrow> bool" where
  "jlt a b =
     (a \<noteq> NaN \<and> b \<noteq> NaN \<and>
      (if a = PInf \<or> b = NInf then False
       else if a = NInf \<or> b = PInf then True
       else val a < val b))"

definition jgt :: "jsnum \<Rightarrow> jsnum \<Rightarrow> bool" where
  "jgt a b = jlt b a"

definition jle :: "jsnum \<Rightarrow> jsnum \<Rightarrow> bool" where
  "jle a b = (a \<noteq> NaN \<and> b \<noteq> NaN \<and> \<not> jlt b a)"

definition jabs :: "jsnum \<Rightarrow> jsnum" where
  "jabs a = (if a = NaN then NaN else if is_inf a then PInf else Fin \<bar>val a\<bar>)"

text \<open>Strict equality \<^verbatim>\<open>===\<close> of two numbers-or-null, and truthiness.\<close>

definition seq :: "jsnum \<Rightarrow> jsnum \<Rightarrow> bool" where
  "seq a b = (a \<noteq> NaN \<and> b \<noteq> NaN \<and> a = b)"

definition truthy :: "jsnum \<Rightarrow> bool" where
  "truthy a = (a \<noteq> NaN \<and> a \<noteq> Null \<and> a \<noteq> Fin 0)"

fun truthy_val :: "jsval \<Rightarrow> bool" where
  "truthy_val Undefined = False"
| "truthy_val (Str s) = (s \<noteq> [])"
| "truthy_val (Num x) = truthy x"

subsection \<open>Strings to numbers\<close>

text \<open>
  The built-ins \<^verbatim>\<open>parseFloat\<close>, \<^verbatim>\<open>parseInt\<close> (no radix argument) and the coercion of
  \<^verbatim>\<open>isNaN\<close>, after ECMA-262, on ASCII strings: the number is the double nearest to
  the value that the digits denote. A \<open>char\<close> is a byte; the white space of JavaScript
  beyond ASCII is not modelled.
\<close>

definition is_ws :: "char \<Rightarrow> bool" where
  "is_ws c = (of_char c \<in> {9, 10, 11, 12, 13, 32 :: nat})"

definition is_digit :: "char \<Rightarrow> bool" where
  "is_digit c = (let n = (of_char c :: nat) in 48 \<le> n \<and> n \<le> 57)"

definition dval :: "char \<Rightarrow> nat" where
  "dval c =
     (let n = (of_char c :: nat)
      in if 48 \<le> n \<and> n \<le> 57 then n - 48
         else if 97 \<le> n \<and> n \<le> 122 then n - 87
         else if 65 \<le> n \<and> n \<le> 90 then n - 55
         else 36)"

definition radix_val :: "nat \<Rightarrow> string \<Rightarrow> nat" where
  "radix_val b ds = foldl (\<lambda>n c. b * n + dval c) 0 ds"

definition scale10 :: "nat \<Rightarrow> int \<Rightarrow> real" where
  "scale10 m k = (if 0 \<le> k then real m * 10 ^ nat k else real m / 10 ^ nat (- k))"

definition exp_part :: "string \<Rightarrow> int \<times> string" where
  "exp_part s =
     (case s of
        [] \<Rightarrow> (0, s)
      | c # r \<Rightarrow>
          if c = CHR ''e'' \<or> c = CHR ''E'' then
            (let neg = (take 1 r = ''-'');
                 r1 = (if take 1 r = ''-'' \<or> take 1 r = ''+'' then drop 1 r else r);
                 ds = takeWhile is_digit r1
             in if ds = [] then (0, s)
                else (if neg then - int (radix_val 10 ds) else int (radix_val 10 ds),
                      dropWhile is_digit r1))
          else (0, s))"

definition str_unsigned_decimal :: "string \<Rightarrow> (jsnum \<times> string) option" where
  "str_unsigned_decimal s =
     (if take 8 s = ''Infinity'' then Some (PInf, drop 8 s)
      else
        let ip = takeWhile is_digit s; r1 = dropWhile is_digit s
        in if take 1 r1 = ''.'' then
             (let fp = takeWhile is_digit (drop 1 r1); r3 = dropWhile is_digit (drop 1 r1)
              in if ip = [] \<and> fp = [] then None
                 else Some (Fin (dbl (scale10 (radix_val 10 (ip @ fp))
                                        (fst (exp_part r3) - int (length fp)))),
                            snd (exp_part r3)))
           else if ip = [] then None
           else Some (Fin (dbl (scale10 (radix_val 10 ip) (fst (exp_part r1)))),
                      snd (exp_part r1)))"

definition str_decimal :: "string \<Rightarrow> (jsnum \<times> string) option" where
  "str_decimal s =
     (if take 1 s = ''-'' then
        (case str_unsigned_decimal (drop 1 s) of
           None \<Rightarrow> None
         | Some (v, rest) \<Rightarrow> Some (jneg v, rest))
      else if take 1 s = ''+'' then str_unsigned_decimal (drop 1 s)
      else str_unsigned_decimal s)"

definition parseFloat_str :: "string \<Rightarrow> jsnum" where
  "parseFloat_str s =
     (case str_decimal (dropWhile is_ws s) of None \<Rightarrow> NaN | Some (v, rest) \<Rightarrow> v)"

fun parseFloat :: "jsval \<Rightarrow> jsnum" where
  "parseFloat (Str s) = parseFloat_str s"
| "parseFloat (Num Null) = NaN"
| "parseFloat (Num x) = x"
| "parseFloat Undefined = NaN"

text \<open>
  \<^verbatim>\<open>parseInt\<close> of a number goes through its decimal rendering: truncation for a
  magnitude between \<open>10\<^sup>-\<^sup>6\<close> and \<open>10\<^sup>2\<^sup>1\<close>, which is where identifiers live
  (beyond it JavaScript renders with an exponent, which is not modelled).
\<close>

definition parseInt_str :: "string \<Rightarrow> jsnum" where
  "parseInt_str s =
     (let t = dropWhile is_ws s;
          neg = (take 1 t = ''-'');
          t1 = (if take 1 t = ''-'' \<or> take 1 t = ''+'' then drop 1 t else t);
          hex = (take 2 t1 = ''0x'' \<or> take 2 t1 = ''0X'');
          radix = (if hex then 16 else 10);
          t2 = (if hex then drop 2 t1 else t1);
          ds = takeWhile (\<lambda>c. dval c < radix) t2
      in if ds = [] then NaN
         else Fin (if neg then - dbl (real (radix_val radix ds))
                   else dbl (real (radix_val radix ds))))"

fun parseInt :: "jsval \<Rightarrow> jsnum" where
  "parseInt (Str s) = parseInt_str s"
| "parseInt (Num (Fin r)) = Fin (of_int (if 0 \<le> r then \<lfloor>r\<rfloor> else \<lceil>r\<rceil>))"
| "parseInt (Num x) = NaN"
| "parseInt Undefined = NaN"

definition trim :: "string \<Rightarrow> string" where
  "trim s = rev (dropWhile is_ws (rev (dropWhile is_ws s)))"

definition non_decimal :: "string \<Rightarrow> jsnum option" where
  "non_decimal t =
     (let radix = (if take 2 t = ''0x'' \<or> take 2 t = ''0X'' then 16
                   else if take 2 t = ''0o'' \<or> take 2 t = ''0O'' then 8
                   else if take 2 t = ''0b'' \<or> take 2 t = ''0B'' then 2
                   else 0 :: nat);
          ds = drop 2 t
      in if radix = 0 then None
         else if ds \<noteq> [] \<and> list_all (\<lambda>c. dval c < radix) ds
           then Some (Fin (dbl (real (radix_val radix ds))))
         else Some NaN)"

definition stringToNumber :: "string \<Rightarrow> jsnum" where
  "stringToNumber s =
     (let t = trim s
      in if t = [] then Fin 0
         else case non_decimal t of
                Some r \<Rightarrow> r
              | None \<Rightarrow> (case str_decimal t of
                           None \<Rightarrow> NaN
                         | Some (v, rest) \<Rightarrow> if rest = [] then v else NaN))"

fun toNumber :: "jsval \<Rightarrow> jsnum" where
  "toNumber (Str s) = stringToNumber s"
| "toNumber (Num Null) = Fin 0"
| "toNumber (Num x) = x"
| "toNumber Undefined = NaN"

definition isNaN :: "jsval \<Rightarrow> bool" where
  "isNaN v = (toNumber v = NaN)"

subsection \<open>Numbers to strings\<close>

definition digit_char :: "nat \<Rightarrow> char" where
  "digit_char d = ''0123456789'' ! d"

fun dec_digits :: "nat \<Rightarrow> string" where
  "dec_digits n =
     (if n < 10 then [digit_char n]
      else dec_digits (n div 10) @ [digit_char (n mod 10)])"

declare dec_digits.simps [simp del]

text \<open>The property name under which the number \<open>i\<close> is looked up in an object.\<close>

definition to_key :: "int \<Rightarrow> string" where
  "to_key i = (if i < 0 then ''-'' @ dec_digits (nat (- i)) else dec_digits (nat i))"

fun commas :: "string \<Rightarrow> string" where
  "commas (a # b # c # d # rest) = a # b # c # CHR '','' # commas (d # rest)"
| "commas xs = xs"

definition group3 :: "string \<Rightarrow> string" where
  "group3 ds = rev (commas (rev ds))"

definition round_half_up :: "real \<Rightarrow> nat" where
  "round_half_up x = nat \<lfloor>x + 1 / 2\<rfloor>"

text \<open>
  \<^verbatim>\<open>Intl.NumberFormat('en-US', {style: 'currency', currency: 'USD',
  minimumFractionDigits: 0, maximumFractionDigits: 0}).format(amount)\<close>: whole dollars,
  ties away from zero, groups of three digits. The infinity sign is its UTF-8 bytes.
\<close>

definition formatCurrency :: "jsnum \<Rightarrow> string" where
  "formatCurrency amount =
     (if amount = NaN then ''$NaN''
      else if amount = PInf then ''$'' @ [CHR 0xE2, CHR 0x88, CHR 0x9E]
      else if amount = NInf then ''-$'' @ [CHR 0xE2, CHR 0x88, CHR 0x9E]
      else (if val amount < 0 then ''-'' else []) @ ''$''
             @ group3 (dec_digits (round_half_up \<bar>val amount\<bar>)))"

text \<open>
  \<^verbatim>\<open>x.toFixed(2)\<close>. From \<open>10\<^sup>2\<^sup>1\<close> on JavaScript renders with an exponent, which is
  not modelled.
\<close>

definition toFixed2 :: "jsnum \<Rightarrow> string" where
  "toFixed2 x =
     (if x = NaN then ''NaN''
      else if x = PInf then ''Infinity''
      else if x = NInf then ''-Infinity''
      else let n = round_half_up (\<bar>val x\<bar> * 100)
           in (if val x < 0 then ''-'' else []) @ dec_digits (n div 100) @ ''.''
                @ [digit_char ((n mod 100) div 10), digit_char (n mod 10)])"

section \<open>The balance engine on values\<close>

text \<open>
  A balance object \<^verbatim>\<open>{fundId, contributionTypeId, units, nav, balance}\<close>, a transfer
  request as the form hands it over (strings or numbers), a fund of the reference list,
  and the result of a validator. An allocation object is the list of its entries in the
  order of \<^verbatim>\<open>Object.entries\<close>; \<^verbatim>\<open>allocations[fund.id]\<close> looks the key \<open>to_key\<close> up.
\<close>

record balance_entry =
  fundId :: jsnum
  contributionTypeId :: jsnum
  units :: jsnum
  nav :: jsnum
  balance :: jsnum

record transfer =
  fromFund :: jsval
  fromType :: jsval
  toFund :: jsval
  amount :: jsval

record fund =
  fund_id :: int
  fund_name :: string

record validation =
  valid :: bool
  error :: "string option"

type_synonym allocation = "(string \<times> jsval) list"

fun find_idx :: "('a \<Rightarrow> bool) \<Rightarrow> 'a list \<Rightarrow> nat option" where
  "find_idx P [] = None"
| "find_idx P (x # xs) = (if P x then Some 0 else map_option Suc (find_idx P xs))"

text \<open>The arrow function of every \<^verbatim>\<open>find\<close> over balances.\<close>

definition matches :: "jsval \<Rightarrow> jsval \<Rightarrow> balance_entry \<Rightarrow> bool" where
  "matches fundId' typeId b =
     (seq (fundId b) (parseInt fundId') \<and> seq (contributionTypeId b) (parseInt typeId))"

definition getBalance :: "balance_entry list \<Rightarrow> jsval \<Rightarrow> jsval \<Rightarrow> jsnum" where
  "getBalance balances fundId' typeId =
     (case find (matches fundId' typeId) balances of
        Some b \<Rightarrow> balance b
      | None \<Rightarrow> Fin 0)"

definition calculateUnitsFromAmount :: "jsnum \<Rightarrow> jsnum \<Rightarrow> jsnum" where
  "calculateUnitsFromAmount amount' nav' = jdiv amount' nav'"

definition calculateBalance :: "jsnum \<Rightarrow> jsnum \<Rightarrow> jsnum" where
  "calculateBalance units' nav' = jmul units' nav'"

definition validateTransfer :: "transfer \<Rightarrow> balance_entry list \<Rightarrow> validation" where
  "validateTransfer req balances =
     (if \<not> truthy_val (fromFund req) \<or> \<not> truthy_val (fromType req)
         \<or> \<not> truthy_val (toFund req) \<or> \<not> truthy_val (amount req)
      then \<lparr>valid = False, error = Some ''All transfer fields are required''\<rparr>
      else
        let transferAmount = parseFloat (amount req)
        in if transferAmount = NaN \<or> jle transferAmount (Fin 0)
           then \<lparr>valid = False, error = Some ''Transfer amount must be greater than zero''\<rparr>
           else if seq (parseInt (fromFund req)) (parseInt (toFund req))
           then \<lparr>valid = False, error = Some ''Source and target funds must be different''\<rparr>
           else
             let availableBalance = getBalance balances (fromFund req) (fromType req)
             in if jgt transferAmount availableBalance
                then \<lparr>valid = False,
                      error = Some (''Insufficient balance. Available: ''
                                      @ formatCurrency availableBalance)\<rparr>
                else \<lparr>valid = True, error = None\<rparr>)"

text \<open>
  \<^verbatim>\<open>JSON.parse(JSON.stringify(balances))\<close> on the values: a number that is not finite
  comes back as null.
\<close>

definition json_num :: "jsnum \<Rightarrow> jsnum" where
  "json_num x = (case x of Fin r \<Rightarrow> Fin r | _ \<Rightarrow> Null)"

definition json_entry :: "balance_entry \<Rightarrow> balance_entry" where
  "json_entry b =
     \<lparr>fundId = json_num (fundId b), contributionTypeId = json_num (contributionTypeId b),
      units = json_num (units b), nav = json_num (nav b), balance = json_num (balance b)\<rparr>"

definition json_copy :: "balance_entry list \<Rightarrow> balance_entry list" where
  "json_copy balances = map json_entry balances"

definition calculateTransferPreview :: "transfer \<Rightarrow> balance_entry list \<Rightarrow> balance_entry list" where
  "calculateTransferPreview req balances =
     (let updatedBalances = json_copy balances;
          transferAmount = parseFloat (amount req)
      in case find_idx (matches (fromFund req) (fromType req)) updatedBalances of
           None \<Rightarrow> updatedBalances
         | Some i \<Rightarrow>
             let sourceNav = nav (updatedBalances ! i);
                 targetNav =
                   (case find (matches (toFund req) (fromType req)) updatedBalances of
                      None \<Rightarrow> sourceNav
                    | Some t \<Rightarrow> if truthy (nav t) then nav t else sourceNav);
                 unitsToTransfer = calculateUnitsFromAmount transferAmount sourceNav;
                 ub1 = updatedBalances[i := (updatedBalances ! i)
                         \<lparr>units := jsub (units (updatedBalances ! i)) unitsToTransfer\<rparr>];
                 ub2 = ub1[i := (ub1 ! i)
                         \<lparr>balance := calculateBalance (units (ub1 ! i)) (nav (ub1 ! i))\<rparr>];
                 ub3 =
                   (case find_idx (matches (toFund req) (fromType req)) ub2 of
                      Some j \<Rightarrow> ub2
                    | None \<Rightarrow>
                        ub2 @ [\<lparr>fundId = parseInt (toFund req),
                                 contributionTypeId = parseInt (fromType req),
                                 units = Fin 0, nav = targetNav, balance = Fin 0\<rparr>]);
                 j = (case find_idx (matches (toFund req) (fromType req)) ub2 of
                        Some j \<Rightarrow> j
                      | None \<Rightarrow> length ub2);
                 ub4 = ub3[j := (ub3 ! j)
                         \<lparr>units := jadd (units (ub3 ! j))
                                     (calculateUnitsFromAmount transferAmount (nav (ub3 ! j)))\<rparr>];
                 ub5 = ub4[j := (ub4 ! j)
                         \<lparr>balance := calculateBalance (units (ub4 ! j)) (nav (ub4 ! j))\<rparr>]
             in ub5)"

definition total_of :: "balance_entry list \<Rightarrow> jsnum" where
  "total_of bs = foldl (\<lambda>sum b. jadd sum (balance b)) (Fin 0) bs"

text \<open>The body of \<^verbatim>\<open>funds.forEach\<close>, for one fund.\<close>

definition reallocate_fund ::
  "allocation \<Rightarrow> jsnum \<Rightarrow> balance_entry list \<Rightarrow> fund \<Rightarrow> balance_entry list" where
  "reallocate_fund allocations totalBalance updatedBalances fund' =
     (case map_of allocations (to_key (fund_id fund')) of
        None \<Rightarrow> updatedBalances
      | Some percentage \<Rightarrow>
          if percentage = Undefined \<or> percentage = Str [] then updatedBalances
          else
            let targetAmount = jdiv (jmul totalBalance (parseFloat percentage)) (Fin 100);
                fundBalances =
                  filter (\<lambda>b. seq (fundId b) (Fin (of_int (fund_id fund')))) updatedBalances;
                fundTotal = total_of fundBalances
            in map (\<lambda>b.
                  if seq (fundId b) (Fin (of_int (fund_id fund'))) then
                    (let proportion =
                           (if jgt fundTotal (Fin 0) then jdiv (balance b) fundTotal
                            else jdiv (Fin 1) (Fin (real (length fundBalances))));
                         newBalance = jmul targetAmount proportion;
                         b1 = b\<lparr>units := calculateUnitsFromAmount newBalance (nav b)\<rparr>
                     in b1\<lparr>balance := calculateBalance (units b1) (nav b1)\<rparr>)
                  else b) updatedBalances)"

definition calculateReallocationPreview ::
  "allocation \<Rightarrow> balance_entry list \<Rightarrow> fund list \<Rightarrow> balance_entry list" where
  "calculateReallocationPreview allocations balances funds =
     (let updatedBalances = json_copy balances;
          totalBalance = total_of updatedBalances
      in foldl (reallocate_fund allocations totalBalance) updatedBalances funds)"

text \<open>The \<^verbatim>\<open>for ... of Object.entries(allocations)\<close> loop: the first offending entry.\<close>

fun invalid_entry :: "allocation \<Rightarrow> string option" where
  "invalid_entry [] = None"
| "invalid_entry ((fundId', percentage) # rest) =
     (if percentage \<noteq> Str [] \<and>
         (isNaN percentage \<or> jlt (parseFloat percentage) (Fin 0)
          \<or> jgt (parseFloat percentage) (Fin 100))
      then Some fundId'
      else invalid_entry rest)"

definition allocation_total :: "allocation \<Rightarrow> jsnum" where
  "allocation_total allocations =
     foldl (\<lambda>sum v. jadd sum (if v = Str [] then Fin 0 else parseFloat v)) (Fin 0)
       (map snd allocations)"

definition validateReallocation :: "allocation \<Rightarrow> validation" where
  "validateReallocation allocations =
     (case invalid_entry allocations of
        Some fundId' \<Rightarrow>
          \<lparr>valid = False,
           error = Some (''Invalid allocation for fund ID '' @ fundId'
                           @ ''. Must be between 0 and 100%'')\<rparr>
      | None \<Rightarrow>
          let total = allocation_total allocations
          in if jgt (jabs (jsub total (Fin 100))) (Fin (dbl (1 / 100)))
             then \<lparr>valid = False,
                   error = Some (''Total allocation must equal 100%. Current total: ''
                                   @ toFixed2 total @ ''%'')\<rparr>
             else \<lparr>valid = True, error = None\<rparr>)"

section \<open>The calculators on a store\<close>

text \<open>
  The calculators mutate objects: \<^verbatim>\<open>sourceBalance\<close> and \<^verbatim>\<open>targetBalance\<close> are
  references into \<^verbatim>\<open>updatedBalances\<close>, and \<^verbatim>\<open>push\<close> grows that array in place.
  Whether the caller's balances survive a call depends on which objects are shared, so
  the two calculators are also written over a store: balance objects and arrays of
  references, both addressed by their position, allocation at the end.
  \<^verbatim>\<open>JSON.parse(JSON.stringify(balances))\<close> allocates one new object for every element
  and one new array.
\<close>

record store =
  objs :: "balance_entry list"
  arrs :: "nat list list"

definition obj :: "store \<Rightarrow> nat \<Rightarrow> balance_entry" where
  "obj s r = objs s ! r"

definition new_obj :: "store \<Rightarrow> balance_entry \<Rightarrow> store \<times> nat" where
  "new_obj s b = (s\<lparr>objs := objs s @ [b]\<rparr>, length (objs s))"

definition new_arr :: "store \<Rightarrow> nat list \<Rightarrow> store \<times> nat" where
  "new_arr s rs = (s\<lparr>arrs := arrs s @ [rs]\<rparr>, length (arrs s))"

definition set_obj :: "store \<Rightarrow> nat \<Rightarrow> balance_entry \<Rightarrow> store" where
  "set_obj s r b = s\<lparr>objs := (objs s)[r := b]\<rparr>"

definition push :: "store \<Rightarrow> nat \<Rightarrow> nat \<Rightarrow> store" where
  "push s a r = s\<lparr>arrs := (arrs s)[a := arrs s ! a @ [r]]\<rparr>"

text \<open>The balance set that the array at address \<open>a\<close> holds.\<close>

definition read_set :: "store \<Rightarrow> nat \<Rightarrow> balance_entry list" where
  "read_set s a = map (obj s) (arrs s ! a)"

fun copy_objs :: "store \<Rightarrow> nat list \<Rightarrow> store \<times> nat list" where
  "copy_objs s [] = (s, [])"
| "copy_objs s (r # rs) =
     (let (s1, r') = new_obj s (json_entry (obj s r));
          (s2, rs') = copy_objs s1 rs
      in (s2, r' # rs'))"

definition json_copy_st :: "store \<Rightarrow> nat \<Rightarrow> store \<times> nat" where
  "json_copy_st s a = (let (s1, rs) = copy_objs s (arrs s ! a) in new_arr s1 rs)"

definition find_ref :: "(balance_entry \<Rightarrow> bool) \<Rightarrow> store \<Rightarrow> nat \<Rightarrow> nat option" where
  "find_ref P s a = find (\<lambda>r. P (obj s r)) (arrs s ! a)"

definition calculateTransferPreview_st :: "transfer \<Rightarrow> store \<Rightarrow> nat \<Rightarrow> store \<times> nat" where
  "calculateTransferPreview_st req s balances =
     (let (s0, updatedBalances) = json_copy_st s balances;
          transferAmount = parseFloat (amount req)
      in case find_ref (matches (fromFund req) (fromType req)) s0 updatedBalances of
           None \<Rightarrow> (s0, updatedBalances)
         | Some sourceBalance \<Rightarrow>
             let sourceNav = nav (obj s0 sourceBalance);
                 targetNav =
                   (case find_ref (matches (toFund req) (fromType req)) s0 updatedBalances of
                      None \<Rightarrow> sourceNav
                    | Some t \<Rightarrow> if truthy (nav (obj s0 t)) then nav (obj s0 t) else sourceNav);
                 unitsToTransfer = calculateUnitsFromAmount transferAmount sourceNav;
                 s1 = set_obj s0 sourceBalance ((obj s0 sourceBalance)
                        \<lparr>units := jsub (units (obj s0 sourceBalance)) unitsToTransfer\<rparr>);
                 s2 = set_obj s1 sourceBalance ((obj s1 sourceBalance)
                        \<lparr>balance := calculateBalance (units (obj s1 sourceBalance))
                                      (nav (obj s1 sourceBalance))\<rparr>);
                 (s3, targetBalance) =
                   (case find_ref (matches (toFund req) (fromType req)) s2 updatedBalances of
                      Some t \<Rightarrow> (s2, t)
                    | None \<Rightarrow>
                        (let (s', t) = new_obj s2
                               \<lparr>fundId = parseInt (toFund req),
                                contributionTypeId = parseInt (fromType req),
                                units = Fin 0, nav = targetNav, balance = Fin 0\<rparr>
                         in (push s' updatedBalances t, t)));
                 s4 = set_obj s3 targetBalance ((obj s3 targetBalance)
                        \<lparr>units := jadd (units (obj s3 targetBalance))
                           (calculateUnitsFromAmount transferAmount (nav (obj s3 targetBalance)))\<rparr>);
                 s5 = set_obj s4 targetBalance ((obj s4 targetBalance)
                        \<lparr>balance := calculateBalance (units (obj s4 targetBalance))
                                      (nav (obj s4 targetBalance))\<rparr>)
             in (s5, updatedBalances))"

text \<open>The body of \<^verbatim>\<open>fundBalances.forEach\<close>, for one balance object.\<close>

definition adjust_balance :: "jsnum \<Rightarrow> jsnum \<Rightarrow> nat \<Rightarrow> store \<Rightarrow> nat \<Rightarrow> store" where
  "adjust_balance targetAmount fundTotal len s r =
     (let proportion =
            (if jgt fundTotal (Fin 0) then jdiv (balance (obj s r)) fundTotal
             else jdiv (Fin 1) (Fin (real len)));
          newBalance = jmul targetAmount proportion;
          s1 = set_obj s r ((obj s r)\<lparr>units := calculateUnitsFromAmount newBalance (nav (obj s r))\<rparr>)
      in set_obj s1 r ((obj s1 r)\<lparr>balance := calculateBalance (units (obj s1 r)) (nav (obj s1 r))\<rparr>))"

definition reallocate_fund_st :: "allocation \<Rightarrow> jsnum \<Rightarrow> nat \<Rightarrow> store \<Rightarrow> fund \<Rightarrow> store" where
  "reallocate_fund_st allocations totalBalance updatedBalances s fund' =
     (case map_of allocations (to_key (fund_id fund')) of
        None \<Rightarrow> s
      | Some percentage \<Rightarrow>
          if percentage = Undefined \<or> percentage = Str [] then s
          else
            let targetAmount = jdiv (jmul totalBalance (parseFloat percentage)) (Fin 100);
                fundBalances =
                  filter (\<lambda>r. seq (fundId (obj s r)) (Fin (of_int (fund_id fund'))))
                    (arrs s ! updatedBalances);
                fundTotal = foldl (\<lambda>sum r. jadd sum (balance (obj s r))) (Fin 0) fundBalances
            in foldl (adjust_balance targetAmount fundTotal (length fundBalances)) s fundBalances)"

definition calculateReallocationPreview_st ::
  "allocation \<Rightarrow> store \<Rightarrow> nat \<Rightarrow> fund list \<Rightarrow> store \<times> nat" where
  "calculateReallocationPreview_st allocations s balances funds =
     (let (s0, updatedBalances) = json_copy_st s balances;
          totalBalance =
            foldl (\<lambda>sum r. jadd sum (balance (obj s0 r))) (Fin 0) (arrs s0 ! updatedBalances)
      in (foldl (reallocate_fund_st allocations totalBalance updatedBalances) s0 funds,
          updatedBalances))"

section \<open>Properties of balance sets\<close>

text \<open>
  The data model: every field of a balance is a finite number, and \<open>balance\<close> is
  \<open>units\<close> times \<open>nav\<close>.
\<close>

fun is_fin :: "jsnum \<Rightarrow> bool" where
  "is_fin (Fin r) = True"
| "is_fin _ = False"

definition finite_entry :: "balance_entry \<Rightarrow> bool" where
  "finite_entry b =
     (is_fin (fundId b) \<and> is_fin (contributionTypeId b) \<and> is_fin (units b)
      \<and> is_fin (nav b) \<and> is_fin (balance b))"

definition inv_ok :: "balance_entry \<Rightarrow> bool" where
  "inv_ok b = seq (balance b) (jmul (units b) (nav b))"

definition well_formed :: "balance_entry \<Rightarrow> bool" where
  "well_formed b = (finite_entry b \<and> inv_ok b)"

text \<open>
  What the calculators keep, given division by a nav that is not 0: units and nav are
  finite numbers and the balance is their product.
\<close>

definition sound_entry :: "balance_entry \<Rightarrow> bool" where
  "sound_entry b = (is_fin (units b) \<and> is_fin (nav b) \<and> nav b \<noteq> Fin 0 \<and> inv_ok b)"

text \<open>The percentages that \<open>calculateReallocationPreview\<close> reads for a fund list.\<close>

definition percentage_of :: "allocation \<Rightarrow> fund \<Rightarrow> jsval" where
  "percentage_of allocations fund' =
     (case map_of allocations (to_key (fund_id fund')) of
        None \<Rightarrow> Undefined
      | Some percentage \<Rightarrow> percentage)"

definition skipped :: "jsval \<Rightarrow> bool" where
  "skipped percentage = (percentage = Undefined \<or> percentage = Str [])"

text \<open>
  The two assignments that a calculator makes to one balance object, taken together:
  the source of a transfer, its target, and an entry of a fund under reallocation.
\<close>

definition debit :: "jsnum \<Rightarrow> balance_entry \<Rightarrow> balance_entry" where
  "debit a b =
     b\<lparr>units := jsub (units b) (jdiv a (nav b)),
       balance := jmul (jsub (units b) (jdiv a (nav b))) (nav b)\<rparr>"

definition credit :: "jsnum \<Rightarrow> balance_entry \<Rightarrow> balance_entry" where
  "credit a b =
     b\<lparr>units := jadd (units b) (jdiv a (nav b)),
       balance := jmul (jadd (units b) (jdiv a (nav b))) (nav b)\<rparr>"

definition rebalance :: "jsnum \<Rightarrow> jsnum \<Rightarrow> nat \<Rightarrow> balance_entry \<Rightarrow> balance_entry" where
  "rebalance targetAmount fundTotal len b =
     (let proportion =
            (if jgt fundTotal (Fin 0) then jdiv (balance b) fundTotal
             else jdiv (Fin 1) (Fin (real len)));
          newBalance = jmul targetAmount proportion
      in b\<lparr>units := jdiv newBalance (nav b), balance := jmul (jdiv newBalance (nav b)) (nav b)\<rparr>)"

text \<open>
  The scenario of the specification: fund 1 and fund 2, one bucket, 1000 dollars each.
\<close>

definition ex_balances :: "balance_entry list" where
  "ex_balances =
     [\<lparr>fundId = Fin 1, contributionTypeId = Fin 1, units = Fin 100, nav = Fin 10,
       balance = Fin 1000\<rparr>,
      \<lparr>fundId = Fin 2, contributionTypeId = Fin 1, units = Fin 50, nav = Fin 20,
       balance = Fin 1000\<rparr>]"

definition ex_funds :: "fund list" where
  "ex_funds = [\<lparr>fund_id = 1, fund_name = ''Fund A''\<rparr>, \<lparr>fund_id = 2, fund_name = ''Fund B''\<rparr>]"

definition ex_transfer :: "string \<Rightarrow> transfer" where
  "ex_transfer a = \<lparr>fromFund = Str ''1'', fromType = Str ''1'', toFund = Str ''2'', amount = Str a\<rparr>"

definition ex_same_nav :: "balance_entry list" where
  "ex_same_nav =
     [\<lparr>fundId = Fin 1, contributionTypeId = Fin 1, units = Fin 100, nav = Fin 10,
       balance = Fin 1000\<rparr>,
      \<lparr>fundId = Fin 2, contributionTypeId = Fin 1, units = Fin 50, nav = Fin 10,
       balance = Fin 500\<rparr>]"

text \<open>
  Three million units at 11 dollars, and a source whose balance is not the product of its
  units and its nav.
\<close>

definition ex_large :: "balance_entry list" where
  "ex_large =
     [\<lparr>fundId = Fin 1, contributionTypeId = Fin 1, units = Fin 3000000, nav = Fin 11,
       balance = Fin 33000000\<rparr>,
      \<lparr>fundId = Fin 2, contributionTypeId = Fin 1, units = Fin 50, nav = Fin 11,
       balance = Fin 550\<rparr>]"

definition ex_off :: "balance_entry list" where
  "ex_off =
     [\<lparr>fundId = Fin 1, contributionTypeId = Fin 1, units = Fin 100, nav = Fin 10,
       balance = Fin 999\<rparr>,
      \<lparr>fundId = Fin 2, contributionTypeId = Fin 1, units = Fin 50, nav = Fin 10,
       balance = Fin 500\<rparr>]"



text \<open>A second fund that holds nothing and is priced at 0.\<close>

definition ex_zero_nav :: "balance_entry list" where
  "ex_zero_nav =
     [\<lparr>fundId = Fin 1, contributionTypeId = Fin 1, units = Fin 100, nav = Fin 10,
       balance = Fin 1000\<rparr>,
      \<lparr>fundId = Fin 2, contributionTypeId = Fin 1, units = Fin 0, nav = Fin 0,
       balance = Fin 0\<rparr>]"

text \<open>
  What a validated transfer of 200 dollars into that second fund returns: units that are
  infinite and a balance that is NaN.
\<close>

definition ex_not_finite :: "balance_entry list" where
  "ex_not_finite =
     [\<lparr>fundId = Fin 1, contributionTypeId = Fin 1, units = Fin 80, nav = Fin 10,
       balance = Fin 800\<rparr>,
      \<lparr>fundId = Fin 2, contributionTypeId = Fin 1, units = PInf, nav = Fin 0,
       balance = NaN\<rparr>]"

text \<open>The sum of the balances of a set, as a real number: no rounding in the summation.\<close>

definition balance_sum :: "balance_entry list \<Rightarrow> real" where
  "balance_sum bs = (\<Sum>b\<leftarrow>bs. val (balance b))"


text \<open>The entries of one fund, what they hold together, and what a reallocation needs.\<close>

definition in_fund :: "int \<Rightarrow> balance_entry \<Rightarrow> bool" where
  "in_fund h b = seq (fundId b) (Fin (of_int h))"



text \<open>
  A store \<open>s'\<close> keeps a store \<open>s\<close>: every object and every array of \<open>s\<close> is in
  \<open>s'\<close> at its address, with the fields and the elements it had.
\<close>

definition keeps :: "store \<Rightarrow> store \<Rightarrow> bool" where
  "keeps s s' =
     (take (length (objs s)) (objs s') = objs s \<and> take (length (arrs s)) (arrs s') = arrs s)"

text \<open>
  Relative to the store \<open>s\<close> of the caller, the array at \<open>a\<close> is owned by the callee: it was
  allocated after \<open>s\<close>, and so was every object it refers to.
\<close>

definition owned :: "store \<Rightarrow> store \<Rightarrow> nat \<Rightarrow> bool" where
  "owned s s' a =
     (keeps s s' \<and> length (arrs s) \<le> a \<and> list_all (\<lambda>r. length (objs s) \<le> r) (arrs s' ! a))"

definition ex_store :: store where
  "ex_store = \<lparr>objs = ex_balances, arrs = [[0, 1]]\<rparr>"

text \<open>
  After the copy, the array at \<open>a\<close> refers to the objects from address \<open>n\<close> to the
  end of the store, in order, and these are the entries \<open>xs\<close>.
\<close>

definition holds :: "nat \<Rightarrow> store \<Rightarrow> nat \<Rightarrow> balance_entry list \<Rightarrow> bool" where
  "holds n s a xs =
     (a < length (arrs s) \<and> arrs s ! a = [n ..< n + length xs]
      \<and> length (objs s) = n + length xs \<and> drop n (objs s) = xs)"

section \<open>Rounding to a double\<close>

text \<open>
  The exponent that \<open>expo\<close> computes is the right one, so \<open>dbl\<close> is off by at most
  half a unit in the last place: a relative error of \<open>2\<^sup>-\<^sup>5\<^sup>3\<close>. Whole numbers below
  \<open>2\<^sup>5\<^sup>3\<close> are doubles.
\<close>

lemma bits_bounds: "0 < n \<Longrightarrow> 2 ^ (bits n - 1) \<le> n \<and> n < 2 ^ bits n"
proof (induction n rule: bits.induct)
  case (1 n)
  show ?case
  proof (cases "n div 2 = 0")
    case True
    with 1(2) have "n = 1" by (simp add: div_eq_0_iff) 
    then show ?thesis by (simp add: bits.simps)
  next
    case False
    then have h: "2 ^ (bits (n div 2) - 1) \<le> n div 2 \<and> n div 2 < 2 ^ bits (n div 2)"
      using 1 by simp
    have pos: "0 < bits (n div 2)"
      using False by (simp add: bits.simps [of "n div 2"])
    have b: "bits n = Suc (bits (n div 2))"
      using 1(2) by (simp add: bits.simps [of n])
    have "2 * 2 ^ (bits (n div 2) - 1) \<le> n"
      using h by linarith
    moreover have "(2::nat) * 2 ^ (bits (n div 2) - 1) = 2 ^ bits (n div 2)"
      using pos by (cases "bits (n div 2)") simp_all
    moreover have "n < 2 * 2 ^ bits (n div 2)"
      using h by linarith
    ultimately show ?thesis
      by (simp add: b)
  qed
qed

lemma bits_floor:
  fixes y :: real
  assumes "1 \<le> y"
  shows "2 ^ (bits (nat \<lfloor>y\<rfloor>) - 1) \<le> y \<and> y < 2 ^ bits (nat \<lfloor>y\<rfloor>)"
proof -
  define m where "m = nat \<lfloor>y\<rfloor>"
  have m: "0 < m" using assms by (simp add: m_def)
  have lo: "real m \<le> y" using assms by (simp add: m_def)
  have hi: "y < real m + 1" using assms by (simp add: m_def)
  have b1: "2 ^ (bits m - 1) \<le> m" and b2: "Suc m \<le> 2 ^ bits m"
    using bits_bounds [OF m] by simp_all
  have "real (2 ^ (bits m - 1)) \<le> real m"
    using b1 by (simp only: of_nat_le_iff)
  then have r1: "2 ^ (bits m - 1) \<le> real m"
    by simp
  have "real (Suc m) \<le> real (2 ^ bits m)"
    using b2 by (simp only: of_nat_le_iff)
  then have r2: "real m + 1 \<le> 2 ^ bits m"
    by simp
  show ?thesis
    unfolding m_def [symmetric] using lo hi r1 r2 by linarith
qed

lemma bits_pos: "0 < n \<Longrightarrow> 0 < bits n"
  by (simp add: bits.simps [of n])

lemma expo_bounds:
  assumes "x \<noteq> 0"
  shows "2 powi expo x \<le> \<bar>x\<bar> \<and> \<bar>x\<bar> < 2 powi (expo x + 1)"
proof (cases "1 \<le> \<bar>x\<bar>")
  case True
  let ?b = "bits (nat \<lfloor>\<bar>x\<bar>\<rfloor>)"
  have pos: "0 < ?b" using True by (intro bits_pos) simp
  have e: "expo x = int ?b - 1" using True by (simp add: expo_def)
  have "int ?b - 1 = int (?b - 1)" using pos by simp
  then have "(2::real) powi expo x = 2 ^ (?b - 1)"
    by (simp only: e power_int_of_nat)
  moreover have "(2::real) powi (expo x + 1) = 2 ^ ?b"
    by (simp add: e)
  ultimately show ?thesis using bits_floor [OF True] by simp
next
  case False
  define b where "b = bits (nat \<lfloor>1 / \<bar>x\<bar>\<rfloor>)"
  define k where "k = int b - 1"
  have ax: "0 < \<bar>x\<bar>" "\<bar>x\<bar> < 1" using assms False by simp_all
  then have y: "1 \<le> 1 / \<bar>x\<bar>" by simp
  have pos: "0 < b" unfolding b_def using y by (intro bits_pos) simp
  have kk: "k = int (b - 1)" using pos by (simp add: k_def)
  have p1: "(2::real) powi k = 2 ^ (b - 1)"
    by (simp only: kk power_int_of_nat)
  from bits_floor [OF y] have lo: "2 ^ (b - 1) \<le> 1 / \<bar>x\<bar>" and hi: "1 / \<bar>x\<bar> < 2 ^ b"
    by (simp_all add: b_def)
  have le: "\<bar>x\<bar> * 2 ^ (b - 1) \<le> 1"
    using lo ax(1) by (simp add: field_simps)
  have gt: "1 < \<bar>x\<bar> * 2 ^ b"
    using hi ax(1) by (simp add: field_simps)
  have two: "(2::real) ^ b = 2 * 2 ^ (b - 1)"
    using pos by (cases b) simp_all
  have m0: "(2::real) powi (- k) = 1 / 2 ^ (b - 1)"
    by (simp only: power_int_minus p1 inverse_eq_divide)
  have "(2::real) powi (- k + 1) = 2 powi (- k) * 2 powi 1"
    by (rule power_int_add) simp
  then have m1: "(2::real) powi (- k + 1) = 2 / 2 ^ (b - 1)"
    by (simp add: m0)
  have "(2::real) powi (- k - 1) = 2 powi (- k) / 2 powi 1"
    by (rule power_int_diff) simp
  then have m2: "(2::real) powi (- k - 1) = 1 / 2 ^ b"
    by (simp add: m0 two)
  show ?thesis
  proof (cases "\<bar>x\<bar> * 2 powi k = 1")
    case True
    then have e: "expo x = - k" using False by (simp add: expo_def Let_def k_def b_def)
    have g1: "(2::real) powi expo x = 1 / 2 ^ (b - 1)"
      by (simp only: e m0)
    have g2: "(2::real) powi (expo x + 1) = 2 / 2 ^ (b - 1)"
      by (simp only: e m1)
    have "\<bar>x\<bar> = 1 / 2 ^ (b - 1)"
      using True p1 by (simp add: field_simps)
    then show ?thesis
      unfolding g1 g2 by (simp add: divide_strict_right_mono)
  next
    case ne: False
    then have e: "expo x = - k - 1" using False by (simp add: expo_def Let_def k_def b_def)
    have "\<bar>x\<bar> * 2 ^ (b - 1) < 1"
      using le ne p1 by simp
    then have f1: "\<bar>x\<bar> < 1 / 2 ^ (b - 1)"
      by (simp add: field_simps)
    have f2: "1 / 2 ^ b \<le> \<bar>x\<bar>"
      using gt by (simp add: field_simps)
    have g1: "(2::real) powi expo x = 1 / 2 ^ b"
      by (simp only: e m2)
    have "expo x + 1 = - k"
      using e by simp
    then have g2: "(2::real) powi (expo x + 1) = 1 / 2 ^ (b - 1)"
      by (simp only: m0)
    show ?thesis
      unfolding g1 g2 using f1 f2 by blast
  qed
qed

lemma round_even_error: "\<bar>real_of_int (round_even y) - y\<bar> \<le> 1 / 2"
  by (simp add: round_even_def Let_def)

lemma dbl_error: "\<bar>dbl x - x\<bar> \<le> \<bar>x\<bar> / 2 ^ 53"
proof (cases "x = 0")
  case True
  then show ?thesis by (simp add: dbl_def)
next
  case False
  let ?q = "2 powi (expo x - 52) :: real"
  have q: "0 < ?q" by simp
  have "dbl x - x = (real_of_int (round_even (x / ?q)) - x / ?q) * ?q"
    using False q by (simp add: dbl_def field_simps)
  then have "\<bar>dbl x - x\<bar> = \<bar>real_of_int (round_even (x / ?q)) - x / ?q\<bar> * ?q"
    using q by (simp add: abs_mult)
  also have "\<dots> \<le> 1 / 2 * ?q"
    using round_even_error [of "x / ?q"] q by (intro mult_right_mono) simp_all
  also have "\<dots> = 2 powi expo x / 2 ^ 53"
    by (simp add: power_int_diff)
  also have "\<dots> \<le> \<bar>x\<bar> / 2 ^ 53"
    using expo_bounds [OF False] by (simp add: divide_right_mono)
  finally show ?thesis .
qed

lemma round_even_of_int [simp]: "round_even (of_int j) = j"
  by (simp add: round_even_def)

lemma dbl_0 [simp]: "dbl 0 = 0"
  by (simp add: dbl_def)

lemma dbl_of_int:
  assumes "\<bar>k\<bar> < 2 ^ 53"
  shows "dbl (of_int k) = of_int k"
proof (cases "k = 0")
  case True
  then show ?thesis by simp
next
  case False
  define x where "x = (of_int k :: real)"
  have x0: "x \<noteq> 0" using False by (simp add: x_def)
  have "\<bar>x\<bar> < 2 ^ 53"
    using assms unfolding x_def by (metis of_int_abs of_int_less_iff of_int_numeral of_int_power)
  then have "(2::real) powi expo x < 2 powi 53"
    using expo_bounds [OF x0] by simp
  then have "expo x < 53"
    by (rule power_int_le_imp_less_exp [rotated]) simp_all
  define n where "n = nat (52 - expo x)"
  have n: "expo x - 52 = - int n"
    using \<open>expo x < 53\<close> by (simp add: n_def)
  have p: "(2::real) powi (expo x - 52) = 1 / 2 ^ n"
    by (simp only: n power_int_minus power_int_of_nat inverse_eq_divide)
  have "x / (1 / 2 ^ n) = of_int (k * 2 ^ n)"
    by (simp add: x_def)
  then have "round_even (x / (1 / 2 ^ n)) = k * 2 ^ n"
    by (simp only: round_even_of_int)
  then have "dbl x = of_int (k * 2 ^ n) * (1 / 2 ^ n)"
    using x0 by (simp only: dbl_def p if_False)
  then show ?thesis
    by (simp add: x_def)
qed

lemma dbl_numeral [simp]: "numeral n < (2::int) ^ 53 \<Longrightarrow> dbl (numeral n) = numeral n"
  using dbl_of_int [of "numeral n"] by simp

lemma dbl_1 [simp]: "dbl 1 = 1"
  using dbl_of_int [of 1] by simp

lemma dbl_of_nat: "n < 2 ^ 53 \<Longrightarrow> dbl (real n) = real n"
  using dbl_of_int [of "int n"] by (simp add: of_nat_less_iff [of n "2 ^ 53", where ?'a = int, simplified])

lemma round_even_minus: "round_even (- y) = - round_even y"
proof (cases "y = of_int \<lfloor>y\<rfloor>")
  case True
  then obtain j where "y = of_int j" ..
  then have "round_even y = j" "round_even (- y) = - j"
    using round_even_of_int [of "- j"] by simp_all
  then show ?thesis by simp
next
  case False
  then have f: "\<lfloor>- y\<rfloor> = - \<lfloor>y\<rfloor> - 1"
    by (simp add: floor_minus ceiling_altdef)
  have d: "0 < y - of_int \<lfloor>y\<rfloor>"
    using False by (simp add: less_le)
  show ?thesis
    using d by (simp add: round_even_def Let_def f)
qed

lemma dbl_minus [simp]: "dbl (- x) = - dbl x"
  by (simp add: dbl_def expo_def round_even_minus)

lemma dbl_sgn:
  "0 \<le> x \<Longrightarrow> 0 \<le> dbl x" "0 < x \<Longrightarrow> 0 < dbl x" "x \<le> 0 \<Longrightarrow> dbl x \<le> 0"
  "x < 0 \<Longrightarrow> dbl x < 0"
proof -
  have "\<bar>dbl x - x\<bar> \<le> \<bar>x\<bar> / 9007199254740992"
    using dbl_error [of x] by simp
  then show "0 \<le> x \<Longrightarrow> 0 \<le> dbl x" "0 < x \<Longrightarrow> 0 < dbl x" "x \<le> 0 \<Longrightarrow> dbl x \<le> 0"
    "x < 0 \<Longrightarrow> dbl x < 0"
    by linarith+
qed

text \<open>
  One round trip through units: \<open>v\<close> is the balance of \<open>u\<close> units at the price
  \<open>n\<close>, and \<open>x\<close> is what an amount \<open>c\<close> buys. The balance of \<open>u + x\<close> units is
  \<open>v + c\<close> up to three roundings.
\<close>

lemma dbl_times_error:
  "\<bar>dbl x * n - x * n\<bar> \<le> \<bar>x * n\<bar> / 2 ^ 53"
proof -
  have "\<bar>dbl x * n - x * n\<bar> = \<bar>dbl x - x\<bar> * \<bar>n\<bar>"
    by (simp add: abs_mult [symmetric] left_diff_distrib)
  also have "\<dots> \<le> \<bar>x\<bar> / 2 ^ 53 * \<bar>n\<bar>"
    using dbl_error [of x] by (intro mult_right_mono) simp_all
  finally show ?thesis
    by (simp add: abs_mult)
qed

lemma units_step_error:
  fixes u n v c x :: real
  assumes v: "\<bar>v - u * n\<bar> \<le> \<bar>u * n\<bar> / 2 ^ 53"
    and x: "\<bar>x * n - c\<bar> \<le> \<bar>c\<bar> / 2 ^ 53"
  shows "\<bar>dbl (dbl (u + x) * n) - (v + c)\<bar> \<le> (\<bar>v\<bar> + \<bar>c\<bar>) / 2 ^ 51"
proof -
  define z where "z = dbl (u + x) * n"
  define U where "U = \<bar>u * n\<bar>"
  define X where "X = \<bar>x * n\<bar>"
  define Y where "Y = \<bar>u * n + x * n\<bar>"
  define Z where "Z = \<bar>z\<bar>"
  define V where "V = \<bar>v\<bar>"
  define C where "C = \<bar>c\<bar>"
  define e0 where "e0 = \<bar>v - u * n\<bar>"
  define e1 where "e1 = \<bar>x * n - c\<bar>"
  define e2 where "e2 = \<bar>z - (u * n + x * n)\<bar>"
  define e3 where "e3 = \<bar>dbl z - z\<bar>"
  have b0: "e0 \<le> U / 2 ^ 53" and b1: "e1 \<le> C / 2 ^ 53"
    using v x by (simp_all add: e0_def e1_def U_def C_def)
  have "\<bar>z - (u + x) * n\<bar> \<le> \<bar>(u + x) * n\<bar> / 2 ^ 53"
    unfolding z_def by (rule dbl_times_error)
  then have b2: "e2 \<le> Y / 2 ^ 53"
    by (simp add: e2_def Y_def distrib_right)
  have b3: "e3 \<le> Z / 2 ^ 53"
    unfolding e3_def Z_def by (rule dbl_error)
  have t0: "U \<le> V + e0"
    unfolding U_def V_def e0_def by linarith
  have t1: "X \<le> C + e1"
    unfolding X_def C_def e1_def by linarith
  have t2: "Y \<le> U + X"
    unfolding Y_def U_def X_def by linarith
  have t3: "Z \<le> Y + e2"
    unfolding Z_def Y_def e2_def by linarith
  have t4: "\<bar>dbl z - (v + c)\<bar> \<le> e3 + e2 + e0 + e1"
    unfolding e0_def e1_def e2_def e3_def by linarith
  have "0 \<le> V" "0 \<le> C"
    by (simp_all add: V_def C_def)
  then have "e3 + e2 + e0 + e1 \<le> (V + C) / 2 ^ 51"
    using b0 b1 b2 b3 t0 t1 t2 t3 by simp
  with t4 show ?thesis
    by (simp add: z_def V_def C_def)
qed


















section \<open>Evaluation\<close>

lemma powi_eval: "(2::real) powi k = (if 0 \<le> k then 2 ^ nat k else 1 / 2 ^ nat (- k))"
  by (simp add: power_int_def power_one_over field_simps)

lemmas dbl_eval = dbl_def expo_def round_even_def bits.simps powi_eval Let_def

lemmas num_defs = jneg_def jadd_def jsub_def jmul_def jdiv_def jlt_def jgt_def jle_def jabs_def
  seq_def truthy_def is_inf_def sign_of_def

lemmas parse_defs = is_ws_def is_digit_def dval_def radix_val_def scale10_def exp_part_def
  str_unsigned_decimal_def str_decimal_def parseFloat_str_def parseInt_str_def trim_def
  non_decimal_def stringToNumber_def isNaN_def

lemmas show_defs = digit_char_def dec_digits.simps to_key_def group3_def round_half_up_def
  formatCurrency_def toFixed2_def

lemmas engine_defs = matches_def getBalance_def calculateUnitsFromAmount_def
  calculateBalance_def validateTransfer_def json_num_def json_entry_def json_copy_def
  calculateTransferPreview_def total_of_def reallocate_fund_def
  calculateReallocationPreview_def allocation_total_def validateReallocation_def

lemmas ex_defs = ex_balances_def ex_funds_def ex_transfer_def finite_entry_def inv_ok_def
  well_formed_def

lemma ex_parse:
  "parseInt_str ''1'' = Fin 1" "parseInt_str ''2'' = Fin 2" "parseInt_str ''3'' = Fin 3"
  "parseFloat_str ''200'' = Fin 200" "parseFloat_str ''1000'' = Fin 1000"
  "parseFloat_str ''1001'' = Fin 1001" "parseFloat_str ''-5'' = Fin (- 5)"
  "parseFloat_str ''10'' = Fin 10" "parseFloat_str ''30'' = Fin 30"
  "parseFloat_str ''70'' = Fin 70" "parseFloat_str ''90'' = Fin 90"
  "parseFloat_str ''25'' = Fin 25" "parseFloat_str ''50'' = Fin 50"
  "parseFloat_str ''75'' = Fin 75" "parseFloat_str ''100'' = Fin 100"
  "parseFloat_str ''12345'' = Fin 12345"
  "parseFloat_str ''Infinity'' = PInf" "parseFloat_str ''abc'' = NaN"
  "parseInt_str ''abc'' = NaN"
  by (simp_all add: parse_defs jneg_def)

lemma ex_show:
  "to_key 1 = ''1''" "to_key 2 = ''2''" "formatCurrency (Fin 1000) = ''$1,000''"
  by (simp_all add: show_defs)

section \<open>What the built-ins return\<close>

lemma str_unsigned_decimal_value:
  "str_unsigned_decimal s = Some (v, rest) \<Longrightarrow> v = PInf \<or> is_fin v"
  by (auto simp: str_unsigned_decimal_def Let_def split: if_splits)

lemma str_decimal_not_Null: "str_decimal s = Some (v, rest) \<Longrightarrow> v \<noteq> Null"
  by (auto simp: str_decimal_def jneg_def split: if_splits option.splits
      dest!: str_unsigned_decimal_value)

lemma parseFloat_not_Null: "parseFloat v \<noteq> Null"
proof (cases v)
  case (Str s)
  then show ?thesis
    by (auto simp: parseFloat_str_def split: option.splits dest: str_decimal_not_Null)
next
  case (Num x)
  then show ?thesis by (cases x) auto
qed simp

section \<open>The JSON copy of a well-formed set\<close>

lemma json_num_fin: "is_fin x \<Longrightarrow> json_num x = x"
  by (cases x) (simp_all add: json_num_def)

lemma json_entry_finite: "finite_entry b \<Longrightarrow> json_entry b = b"
  by (simp add: finite_entry_def json_entry_def json_num_fin)

lemma json_copy_finite: "\<forall>b \<in> set bs. finite_entry b \<Longrightarrow> json_copy bs = bs"
  by (simp add: json_copy_def json_entry_finite map_idI)

lemma find_idx_None: "find_idx P xs = None \<longleftrightarrow> (\<forall>x \<in> set xs. \<not> P x)"
  by (induction xs) auto

section \<open>The validators\<close>

text \<open>
  C10. The empty allocation object is rejected: the loop over its entries finds nothing,
  the total is 0, and the message reports 0.00%.
\<close>

theorem validateReallocation_empty:
  "validateReallocation [] =
     \<lparr>valid = False,
      error = Some ''Total allocation must equal 100%. Current total: 0.00%''\<rparr>"
  by (simp add: engine_defs num_defs show_defs dbl_eval)

text \<open>
  C5, as stated, asks for the error about the amount whenever the amount does not parse
  to a finite number above 0. The amount \<^verbatim>\<open>"Infinity"\<close> parses to \<open>PInf\<close>, which is
  neither NaN nor at most 0: the check lets it through, and the request is rejected
  later, for the balance. And the amount 0 given as a number, not as a string, is falsy:
  the first check takes the field for missing.
\<close>

theorem infinite_amount_counterexample:
  "truthy_val (Str ''Infinity'') \<and> parseFloat (Str ''Infinity'') = PInf \<and>
   validateTransfer (ex_transfer ''Infinity'') ex_balances =
     \<lparr>valid = False, error = Some ''Insufficient balance. Available: $1,000''\<rparr> \<and>
   validateTransfer
     \<lparr>fromFund = Num (Fin 1), fromType = Num (Fin 1), toFund = Num (Fin 2),
      amount = Num (Fin 0)\<rparr> ex_balances =
     \<lparr>valid = False, error = Some ''All transfer fields are required''\<rparr>"
  by (simp add: ex_defs engine_defs num_defs ex_parse ex_show)

text \<open>
  C5 (amended). When the four fields are truthy, which is how the first check reads
  their presence (a string that is not empty, a number other than 0 and NaN), and the
  amount parses to NaN or to a number at most 0, minus infinity included,
  \<open>validateTransfer\<close> rejects with \<^verbatim>\<open>Transfer amount must be greater than zero\<close>,
  whatever the balances.
\<close>

theorem validateTransfer_invalid_amount:
  assumes "truthy_val (fromFund req)" and "truthy_val (fromType req)"
    and "truthy_val (toFund req)" and "truthy_val (amount req)"
    and "parseFloat (amount req) \<noteq> PInf"
    and "\<And>r. parseFloat (amount req) = Fin r \<Longrightarrow> r \<le> 0"
  shows "validateTransfer req balances =
     \<lparr>valid = False, error = Some ''Transfer amount must be greater than zero''\<rparr>"
proof -
  have "parseFloat (amount req) = NaN \<or> jle (parseFloat (amount req)) (Fin 0)"
    using assms(5,6) parseFloat_not_Null [of "amount req"]
    by (cases "parseFloat (amount req)") (auto simp: jle_def jlt_def)
  with assms(1-4) show ?thesis
    by (simp add: validateTransfer_def Let_def)
qed

theorem validateTransfer_invalid_amount_witness:
  "parseFloat (Str ''-5'') = Fin (- 5) \<and>
   validateTransfer (ex_transfer ''-5'') ex_balances =
     \<lparr>valid = False, error = Some ''Transfer amount must be greater than zero''\<rparr>"
  using validateTransfer_invalid_amount [of "ex_transfer ''-5''" ex_balances]
  by (simp add: ex_transfer_def ex_parse)

text \<open>
  C6. A request that passes the checks on the fields, on the amount and on the two funds
  is rejected exactly when the amount is above the available balance, and then the
  message ends with that balance as \<open>formatCurrency\<close> renders it; otherwise the result
  is valid, without error. The available balance is that of the first entry for the
  source fund and bucket, and 0 when there is none.
\<close>

theorem validateTransfer_insufficient_balance:
  assumes "truthy_val (fromFund req)" and "truthy_val (fromType req)"
    and "truthy_val (toFund req)" and "truthy_val (amount req)"
    and "parseFloat (amount req) \<noteq> NaN" and "\<not> jle (parseFloat (amount req)) (Fin 0)"
    and "\<not> seq (parseInt (fromFund req)) (parseInt (toFund req))"
  shows "validateTransfer req balances =
     (if jgt (parseFloat (amount req)) (getBalance balances (fromFund req) (fromType req))
      then \<lparr>valid = False,
            error = Some (''Insufficient balance. Available: ''
                     @ formatCurrency (getBalance balances (fromFund req) (fromType req)))\<rparr>
      else \<lparr>valid = True, error = None\<rparr>)
     \<and> getBalance balances (fromFund req) (fromType req) =
       (case find (matches (fromFund req) (fromType req)) balances of
          None \<Rightarrow> Fin 0
        | Some b \<Rightarrow> balance b)"
  using assms by (simp add: validateTransfer_def Let_def getBalance_def)

theorem validateTransfer_insufficient_balance_witness:
  "validateTransfer (ex_transfer ''1001'') ex_balances =
     \<lparr>valid = False, error = Some ''Insufficient balance. Available: $1,000''\<rparr>
   \<and> validateTransfer (ex_transfer ''1000'') ex_balances = \<lparr>valid = True, error = None\<rparr>"
  using validateTransfer_insufficient_balance [of "ex_transfer ''1001''" ex_balances]
    validateTransfer_insufficient_balance [of "ex_transfer ''1000''" ex_balances]
  by (simp add: ex_defs getBalance_def matches_def ex_parse ex_show num_defs)

text \<open>
  C7. \<open>validateReallocation\<close> tests an entry with \<^verbatim>\<open>isNaN\<close>, which coerces with
  ToNumber, and then reads it with \<^verbatim>\<open>parseFloat\<close>. For a string of one space the first
  gives 0 and the second NaN: no entry offends, the total is NaN, the comparison of its
  distance to 100 with 0.01 is false, and the allocation is accepted.
\<close>

theorem validateReallocation_blank_accepted:
  "isNaN (Str '' '') = False \<and> parseFloat (Str '' '') = NaN \<and>
   allocation_total [(''1'', Str '' '')] = NaN \<and>
   validateReallocation [(''1'', Str '' '')] = \<lparr>valid = True, error = None\<rparr>"
  by (simp add: engine_defs num_defs parse_defs)

section \<open>The calculators on values\<close>

text \<open>
  C8, as stated, is about every balance set. What the function returns when it finds no
  source is its JSON copy, and JSON has no infinity and no NaN: in the set that a
  validated transfer into a fund priced at 0 has left behind, the units and the balance
  of the second entry come back as null.
\<close>

theorem transfer_without_source_counterexample:
  "calculateTransferPreview (ex_transfer ''200'') ex_zero_nav = ex_not_finite \<and>
   find (matches (Str ''3'') (Str ''1'')) ex_not_finite = None \<and>
   calculateTransferPreview
     \<lparr>fromFund = Str ''3'', fromType = Str ''1'', toFund = Str ''2'', amount = Str ''200''\<rparr>
     ex_not_finite
   = [\<lparr>fundId = Fin 1, contributionTypeId = Fin 1, units = Fin 80, nav = Fin 10,
        balance = Fin 800\<rparr>,
      \<lparr>fundId = Fin 2, contributionTypeId = Fin 1, units = Null, nav = Fin 0,
        balance = Null\<rparr>] \<and>
   calculateTransferPreview
     \<lparr>fromFund = Str ''3'', fromType = Str ''1'', toFund = Str ''2'', amount = Str ''200''\<rparr>
     ex_not_finite \<noteq> ex_not_finite"
proof -
  have "calculateTransferPreview (ex_transfer ''200'') ex_zero_nav = ex_not_finite"
    by (simp add: ex_zero_nav_def ex_not_finite_def ex_transfer_def calculateTransferPreview_def
        json_copy_def json_entry_def json_num_def matches_def calculateUnitsFromAmount_def
        calculateBalance_def ex_parse Let_def num_defs)
  then show ?thesis
    by (simp add: ex_not_finite_def calculateTransferPreview_def json_copy_def json_entry_def
        json_num_def matches_def ex_parse seq_def)
qed

text \<open>
  C8 (amended). When every field of every entry of a balance set is a finite number and
  no entry matches the source fund and bucket of the request,
  \<open>calculateTransferPreview\<close> returns the set as it is.
\<close>

theorem transfer_without_source_noop:
  assumes "\<forall>b \<in> set balances. finite_entry b"
    and "\<forall>b \<in> set balances. \<not> matches (fromFund req) (fromType req) b"
  shows "calculateTransferPreview req balances = balances"
proof -
  have "find_idx (matches (fromFund req) (fromType req)) balances = None"
    using assms(2) by (simp add: find_idx_None)
  then show ?thesis
    using assms(1) by (simp add: calculateTransferPreview_def json_copy_finite)
qed

theorem transfer_without_source_noop_witness:
  "calculateTransferPreview
     \<lparr>fromFund = Str ''3'', fromType = Str ''1'', toFund = Str ''2'', amount = Str ''200''\<rparr>
     ex_balances = ex_balances"
  using transfer_without_source_noop [of ex_balances
      "\<lparr>fromFund = Str ''3'', fromType = Str ''1'', toFund = Str ''2'', amount = Str ''200''\<rparr>"]
  by (simp add: ex_defs matches_def ex_parse seq_def)

lemma reallocate_fund_length: "length (reallocate_fund al T xs g) = length xs"
  by (simp add: reallocate_fund_def Let_def split: option.splits)

lemma reallocate_fund_fundId:
  "i < length xs \<Longrightarrow> fundId (reallocate_fund al T xs g ! i) = fundId (xs ! i)"
  by (simp add: reallocate_fund_def Let_def split: option.splits)

lemma reallocate_fund_skipped:
  assumes "map_of al (to_key f) = None \<or> map_of al (to_key f) = Some (Str [])"
    and "i < length xs" and "fundId (xs ! i) = Fin (of_int f)"
  shows "reallocate_fund al T xs g ! i = xs ! i"
proof (cases "fund_id g = f")
  case True
  with assms(1) show ?thesis by (auto simp: reallocate_fund_def)
next
  case False
  then have "\<not> seq (fundId (xs ! i)) (Fin (of_int (fund_id g)))"
    using assms(3) by (simp add: seq_def)
  with assms(2) show ?thesis
    by (simp add: reallocate_fund_def Let_def split: option.splits)
qed

lemma foldl_reallocate_skipped:
  assumes "map_of al (to_key f) = None \<or> map_of al (to_key f) = Some (Str [])"
  shows "length (foldl (reallocate_fund al T) xs gs) = length xs \<and>
         (\<forall>i < length xs. fundId (xs ! i) = Fin (of_int f) \<longrightarrow>
            foldl (reallocate_fund al T) xs gs ! i = xs ! i)"
proof (induction gs arbitrary: xs)
  case Nil
  show ?case by simp
next
  case (Cons g gs)
  show ?case
    using Cons.IH [of "reallocate_fund al T xs g"] reallocate_fund_skipped [OF assms]
    by (simp add: reallocate_fund_length reallocate_fund_fundId)
qed

text \<open>
  C9, as stated, is about every balance set. The entries that a reallocation leaves alone
  are those of the JSON copy: fund 2 is absent from the allocation object, and its
  entry, with infinite units and a NaN balance after a validated transfer into a fund
  priced at 0, comes back with null in their place.
\<close>

theorem reallocation_skips_counterexample:
  "calculateTransferPreview (ex_transfer ''200'') ex_zero_nav = ex_not_finite \<and>
   map_of [(''1'', Str ''100'')] (to_key 2) = None \<and>
   calculateReallocationPreview [(''1'', Str ''100'')] ex_not_finite ex_funds ! 1
     = \<lparr>fundId = Fin 2, contributionTypeId = Fin 1, units = Null, nav = Fin 0,
        balance = Null\<rparr> \<and>
   calculateReallocationPreview [(''1'', Str ''100'')] ex_not_finite ex_funds ! 1
     \<noteq> ex_not_finite ! 1"
proof -
  have "calculateTransferPreview (ex_transfer ''200'') ex_zero_nav = ex_not_finite"
    by (simp add: ex_zero_nav_def ex_not_finite_def ex_transfer_def calculateTransferPreview_def
        json_copy_def json_entry_def json_num_def matches_def calculateUnitsFromAmount_def
        calculateBalance_def ex_parse Let_def num_defs)
  then show ?thesis
    by (simp add: ex_not_finite_def ex_funds_def calculateReallocationPreview_def
        reallocate_fund_def json_copy_def json_entry_def json_num_def ex_show seq_def Let_def)
qed

text \<open>
  C9 (amended). When every field of every entry of a balance set is a finite number and
  the allocation object has no entry for the fund \<open>f\<close>, or the empty string,
  \<open>calculateReallocationPreview\<close> returns a set of the same length in which every
  entry of fund \<open>f\<close> is the entry of the input at the same place: units, nav and balance
  are those of the input.
\<close>

theorem reallocation_skips_unallocated:
  assumes "\<forall>b \<in> set balances. finite_entry b"
    and "map_of allocations (to_key f) = None \<or> map_of allocations (to_key f) = Some (Str [])"
  shows "length (calculateReallocationPreview allocations balances funds) = length balances \<and>
         (\<forall>i < length balances. fundId (balances ! i) = Fin (of_int f) \<longrightarrow>
            calculateReallocationPreview allocations balances funds ! i = balances ! i)"
  using foldl_reallocate_skipped [OF assms(2), of _ balances funds] assms(1)
  by (simp add: calculateReallocationPreview_def json_copy_finite)

theorem reallocation_skips_unallocated_witness:
  "map_of [(''1'', Str ''50''), (''2'', Str '''')] (to_key 2) = Some (Str []) \<and>
   calculateReallocationPreview [(''1'', Str ''50''), (''2'', Str '''')] ex_balances ex_funds ! 1
     = ex_balances ! 1 \<and>
   balance (calculateReallocationPreview [(''1'', Str ''50''), (''2'', Str '''')]
              ex_balances ex_funds ! 0) = Fin 1000"
proof -
  have "balance (calculateReallocationPreview [(''1'', Str ''50''), (''2'', Str '''')]
              ex_balances ex_funds ! 0) = Fin 1000"
    by (simp add: ex_defs engine_defs ex_show ex_parse num_defs Let_def)
  then show ?thesis
    using reallocation_skips_unallocated
      [of ex_balances "[(''1'', Str ''50''), (''2'', Str '''')]" 2 ex_funds]
    by (simp add: ex_show ex_defs)
qed

section \<open>Lists and finite numbers\<close>

lemma is_fin_iff: "is_fin x \<longleftrightarrow> (\<exists>r. x = Fin r)"
  by (cases x) auto

lemma fin_arith [simp]:
  "jadd (Fin a) (Fin b) = Fin (dbl (a + b))"
  "jsub (Fin a) (Fin b) = Fin (dbl (a - b))"
  "jmul (Fin a) (Fin b) = Fin (dbl (a * b))"
  "jdiv (Fin a) (Fin b) =
     (if b = 0 then (if a = 0 then NaN else if 0 < a then PInf else NInf) else Fin (dbl (a / b)))"
  by (simp_all add: num_defs)

lemma fin_compare [simp]:
  "jlt (Fin a) (Fin b) = (a < b)"
  "jgt (Fin a) (Fin b) = (b < a)"
  "jle (Fin a) (Fin b) = (a \<le> b)"
  "seq (Fin a) (Fin b) = (a = b)"
  by (auto simp: num_defs)

lemma find_idx_Some:
  "find_idx P xs = Some i \<Longrightarrow> i < length xs \<and> P (xs ! i) \<and> (\<forall>k < i. \<not> P (xs ! k))"
proof (induction xs arbitrary: i)
  case Nil
  then show ?case by simp
next
  case (Cons x xs)
  show ?case
  proof (cases "P x")
    case True
    with Cons.prems show ?thesis by simp
  next
    case False
    with Cons.prems obtain j where j: "find_idx P xs = Some j" "i = Suc j"
      by auto
    from Cons.IH [OF j(1)] False j(2) show ?thesis
      by (auto simp: less_Suc_eq_0_disj)
  qed
qed

lemma find_find_idx: "find P xs = map_option ((!) xs) (find_idx P xs)"
  by (induction xs) (auto simp: option.map_comp comp_def)

lemma find_idx_cong: "map P ys = map P xs \<Longrightarrow> find_idx P ys = find_idx P xs"
proof (induction xs arbitrary: ys)
  case Nil
  then show ?case by simp
next
  case (Cons x xs)
  then obtain y ys' where "ys = y # ys'" "P y = P x" "map P ys' = map P xs"
    by (cases ys) auto
  with Cons.IH [of ys'] show ?case by simp
qed

lemma find_idx_update:
  "P y = P (xs ! i) \<Longrightarrow> find_idx P (xs[i := y]) = find_idx P xs"
  by (rule find_idx_cong)
    (cases "i < length xs", simp_all add: map_update list_update_same_conv list_update_beyond)

lemma snoc_at_length:
  "n = length xs \<Longrightarrow> (xs @ [y]) ! n = y"
  "n = length xs \<Longrightarrow> (xs @ [y])[n := z] = xs @ [z]"
  by simp_all

lemma find_idx_append:
  "find_idx P (xs @ ys) =
     (case find_idx P xs of
        Some i \<Rightarrow> Some i
      | None \<Rightarrow> map_option (\<lambda>k. length xs + k) (find_idx P ys))"
proof (induction xs)
  case Nil
  show ?case by (cases "find_idx P ys") simp_all
next
  case (Cons x xs)
  then show ?case
    by (cases "find_idx P ys"; cases "find_idx P xs") simp_all
qed

lemma sum_map_update:
  "i < length xs \<Longrightarrow>
   (\<Sum>b\<leftarrow>xs[i := y]. f b) = (\<Sum>b\<leftarrow>xs. f b) - f (xs ! i) + (f y :: real)"
  by (induction xs arbitrary: i) (auto split: nat.splits)

lemma ball_update:
  "\<forall>b \<in> set xs. P b \<Longrightarrow> P y \<Longrightarrow> \<forall>b \<in> set (xs[i := y]). P b"
  by (metis insert_iff set_update_subset_insert subsetD)

lemma foldl_jadd_fin:
  "\<forall>b \<in> set xs. is_fin (balance b) \<Longrightarrow>
   is_fin (foldl (\<lambda>sum b. jadd sum (balance b)) (Fin acc) xs)"
proof (induction xs arbitrary: acc)
  case Nil
  show ?case by simp
next
  case (Cons x xs)
  then obtain r where "balance x = Fin r"
    by (auto simp: is_fin_iff)
  with Cons show ?case
    by simp
qed

lemma total_of_fin: "\<forall>b \<in> set xs. is_fin (balance b) \<Longrightarrow> is_fin (total_of xs)"
  using foldl_jadd_fin [of xs 0] by (simp add: total_of_def)

section \<open>A transfer, step by step\<close>

lemma matches_update [simp]:
  "matches f t (b\<lparr>units := u\<rparr>) = matches f t b"
  "matches f t (b\<lparr>balance := v\<rparr>) = matches f t b"
  by (simp_all add: matches_def)

lemma transfer_closed_form:
  assumes "find_idx (matches (fromFund req) (fromType req)) (json_copy balances) = Some i"
  shows "calculateTransferPreview req balances =
     (let ub = json_copy balances;
          a = parseFloat (amount req);
          ub2 = ub[i := debit a (ub ! i)]
      in case find_idx (matches (toFund req) (fromType req)) ub of
           Some j \<Rightarrow> ub2[j := credit a (ub2 ! j)]
         | None \<Rightarrow>
             ub2 @ [credit a \<lparr>fundId = parseInt (toFund req),
                       contributionTypeId = parseInt (fromType req),
                       units = Fin 0, nav = nav (ub ! i), balance = Fin 0\<rparr>])"
proof -
  let ?ub = "json_copy balances"
  let ?P = "matches (toFund req) (fromType req)"
  have i: "i < length ?ub"
    using find_idx_Some [OF assms] by simp
  show ?thesis
  proof (cases "find_idx ?P ?ub")
    case None
    with assms i show ?thesis
      by (simp add: calculateTransferPreview_def Let_def calculateUnitsFromAmount_def
          calculateBalance_def credit_def debit_def find_find_idx find_idx_update
          snoc_at_length)
  next
    case (Some j)
    then have j: "j < length ?ub"
      using find_idx_Some by blast
    with Some assms i show ?thesis
      by (simp add: calculateTransferPreview_def Let_def calculateUnitsFromAmount_def
          calculateBalance_def credit_def debit_def find_find_idx find_idx_update)
  qed
qed

lemma matches_debit [simp]: "matches f t (debit a b) = matches f t b"
  by (simp add: debit_def)

lemma matches_credit [simp]: "matches f t (credit a b) = matches f t b"
  by (simp add: credit_def)

lemma getBalance_idx:
  "getBalance xs f t =
     (case find_idx (matches f t) xs of None \<Rightarrow> Fin 0 | Some i \<Rightarrow> balance (xs ! i))"
  by (simp add: getBalance_def find_find_idx split: option.splits)

lemma sound_entry_iff:
  "sound_entry b \<longleftrightarrow>
     (\<exists>u n. units b = Fin u \<and> nav b = Fin n \<and> n \<noteq> 0 \<and> balance b = Fin (dbl (u * n)))"
  by (auto simp: sound_entry_def inv_ok_def is_fin_iff seq_def)

lemma sound_json_entry: "sound_entry b \<Longrightarrow> sound_entry (json_entry b)"
  by (auto simp: sound_entry_iff json_entry_def json_num_def)

lemma sound_debit: "sound_entry b \<Longrightarrow> is_fin a \<Longrightarrow> sound_entry (debit a b)"
  by (auto simp: sound_entry_iff debit_def is_fin_iff)

lemma sound_credit: "sound_entry b \<Longrightarrow> is_fin a \<Longrightarrow> sound_entry (credit a b)"
  by (auto simp: sound_entry_iff credit_def is_fin_iff)

lemma transfer_sound:
  assumes "\<forall>b \<in> set balances. sound_entry b" and "is_fin (parseFloat (amount req))"
  shows "\<forall>b \<in> set (calculateTransferPreview req balances). sound_entry b"
proof -
  let ?ub = "json_copy balances"
  let ?a = "parseFloat (amount req)"
  have ub: "\<forall>b \<in> set ?ub. sound_entry b"
    using assms(1) by (auto simp: json_copy_def sound_json_entry)
  show ?thesis
  proof (cases "find_idx (matches (fromFund req) (fromType req)) ?ub")
    case None
    with ub show ?thesis
      by (simp add: calculateTransferPreview_def)
  next
    case (Some i)
    then have i: "i < length ?ub"
      using find_idx_Some by blast
    then have si: "sound_entry (?ub ! i)"
      using ub by simp
    let ?ub2 = "?ub[i := debit ?a (?ub ! i)]"
    have "sound_entry (debit ?a (?ub ! i))"
      using si assms(2) by (rule sound_debit)
    with ub have ub2: "\<forall>b \<in> set ?ub2. sound_entry b"
      by (rule ball_update)
    show ?thesis
    proof (cases "find_idx (matches (toFund req) (fromType req)) ?ub")
      case None
      let ?new = "\<lparr>fundId = parseInt (toFund req),
              contributionTypeId = parseInt (fromType req),
              units = Fin 0, nav = nav (?ub ! i), balance = Fin 0\<rparr>"
      have "sound_entry ?new"
        using si by (auto simp: sound_entry_iff)
      then have new: "sound_entry (credit ?a ?new)"
        using assms(2) by (rule sound_credit)
      have "calculateTransferPreview req balances = ?ub2 @ [credit ?a ?new]"
        using transfer_closed_form [OF Some] None by (simp add: Let_def)
      then show ?thesis
        using ub2 new by simp
    next
      case j: (Some j)
      then have "j < length ?ub2"
        using find_idx_Some [OF j] by simp
      then have "sound_entry (?ub2 ! j)"
        using ub2 nth_mem by blast
      then have "sound_entry (credit ?a (?ub2 ! j))"
        using assms(2) by (rule sound_credit)
      with ub2 have "\<forall>b \<in> set (?ub2[j := credit ?a (?ub2 ! j)]). sound_entry b"
        by (rule ball_update)
      moreover have "calculateTransferPreview req balances = ?ub2[j := credit ?a (?ub2 ! j)]"
        using transfer_closed_form [OF Some] j by (simp add: Let_def)
      ultimately show ?thesis
        by simp
    qed
  qed
qed

lemma valid_transfer_facts:
  assumes "valid (validateTransfer req bs)"
  shows "parseFloat (amount req) \<noteq> NaN" and "\<not> jle (parseFloat (amount req)) (Fin 0)"
    and "\<not> seq (parseInt (fromFund req)) (parseInt (toFund req))"
    and "\<not> jgt (parseFloat (amount req)) (getBalance bs (fromFund req) (fromType req))"
  using assms by (simp_all add: validateTransfer_def Let_def split: if_splits)

lemma well_formed_iff:
  "well_formed b \<longleftrightarrow>
     finite_entry b \<and>
     (\<exists>u n. units b = Fin u \<and> nav b = Fin n \<and> balance b = Fin (dbl (u * n)))"
  by (auto simp: well_formed_def finite_entry_def inv_ok_def is_fin_iff)

lemma well_formed_balance_fin: "well_formed b \<Longrightarrow> is_fin (balance b)"
  by (auto simp: well_formed_iff)

text \<open>
  A validated transfer between two entries of one price: the balances that
  \<open>getBalance\<close> reads before and after, and the sum of all balances.
\<close>

lemma transfer_conserves:
  assumes wf: "\<forall>b \<in> set balances. well_formed b"
    and ok: "valid (validateTransfer req balances)"
    and navs: "\<And>s t. find (matches (fromFund req) (fromType req)) balances = Some s \<Longrightarrow>
                 find (matches (toFund req) (fromType req)) balances = Some t \<Longrightarrow> nav t = nav s"
    and tf: "parseInt (toFund req) \<noteq> NaN"
  shows "\<exists>a v w v' w'.
           parseFloat (amount req) = Fin a \<and> 0 < a \<and> a \<le> v \<and>
           getBalance balances (fromFund req) (fromType req) = Fin v \<and>
           getBalance balances (toFund req) (fromType req) = Fin w \<and>
           getBalance (calculateTransferPreview req balances) (fromFund req) (fromType req)
             = Fin v' \<and>
           getBalance (calculateTransferPreview req balances) (toFund req) (fromType req)
             = Fin w' \<and>
           \<bar>v' - (v - a)\<bar> \<le> (\<bar>v\<bar> + \<bar>a\<bar>) / 2 ^ 51 \<and>
           \<bar>w' - (w + a)\<bar> \<le> (\<bar>w\<bar> + \<bar>a\<bar>) / 2 ^ 51 \<and>
           balance_sum (calculateTransferPreview req balances)
             = balance_sum balances + (v' - v) + (w' - w)"
proof -
  let ?a = "parseFloat (amount req)"
  let ?S = "matches (fromFund req) (fromType req)"
  let ?T = "matches (toFund req) (fromType req)"
  let ?R = "calculateTransferPreview req balances"
  note v = valid_transfer_facts [OF ok]
  have copy: "json_copy balances = balances"
    using wf by (simp add: json_copy_finite well_formed_def)
  have pos: "jgt ?a (Fin 0)"
    using v(1,2) by (simp add: jle_def jgt_def)
  obtain i where i: "find_idx ?S balances = Some i"
    using v(4) pos by (cases "find_idx ?S balances") (auto simp: getBalance_idx)
  then have il: "i < length balances" and Si: "?S (balances ! i)"
    using find_idx_Some by blast+
  then have "well_formed (balances ! i)"
    using wf by simp
  then obtain u n where s: "units (balances ! i) = Fin u" "nav (balances ! i) = Fin n"
      "balance (balances ! i) = Fin (dbl (u * n))"
    by (auto simp: well_formed_iff)
  define bv where "bv = dbl (u * n)"
  have gs: "getBalance balances (fromFund req) (fromType req) = Fin bv"
    using i s by (simp add: getBalance_idx bv_def)
  obtain r where r: "?a = Fin r" "0 < r" "r \<le> bv"
    using v(1,4) pos parseFloat_not_Null [of "amount req"] gs
    by (cases ?a) (auto simp: jgt_def jlt_def)
  have n0: "n \<noteq> 0"
  proof
    assume "n = 0"
    then have "bv = 0" by (simp add: bv_def)
    with r show False by simp
  qed
  define x where "x = dbl (r / n)"
  have xr: "\<bar>x * n - r\<bar> \<le> \<bar>r\<bar> / 2 ^ 53"
    using dbl_times_error [of "r / n" n] n0 by (simp add: x_def)
  define sv where "sv = dbl (dbl (u - x) * n)"
  have bal_s: "balance (debit ?a (balances ! i)) = Fin sv"
    using s r n0 by (simp add: debit_def sv_def x_def)
  have err_s: "\<bar>sv - (bv - r)\<bar> \<le> (\<bar>bv\<bar> + \<bar>r\<bar>) / 2 ^ 51"
    using units_step_error [of bv u n "- x" "- r"] xr dbl_error [of "u * n"]
    by (simp add: sv_def bv_def abs_minus_commute)
  let ?ub2 = "balances[i := debit ?a (balances ! i)]"
  have sum2: "balance_sum ?ub2 = balance_sum balances + (sv - bv)"
    using il s bal_s by (simp add: balance_sum_def sum_map_update bv_def)
  have S2: "find_idx ?S ?ub2 = Some i"
    using i by (simp add: find_idx_update)
  have T2: "find_idx ?T ?ub2 = find_idx ?T balances"
    by (simp add: find_idx_update)
  show ?thesis
  proof (cases "find_idx ?T balances")
    case None
    let ?new = "\<lparr>fundId = parseInt (toFund req), contributionTypeId = parseInt (fromType req),
                  units = Fin 0, nav = nav (balances ! i), balance = Fin 0\<rparr>"
    define tv where "tv = dbl (dbl (0 + x) * n)"
    have R: "?R = ?ub2 @ [credit ?a ?new]"
      using transfer_closed_form [of req balances i] i None copy by (simp add: Let_def)
    have bal_n: "balance (credit ?a ?new) = Fin tv"
      using s r n0 by (simp add: credit_def tv_def x_def)
    have err_t: "\<bar>tv - (0 + r)\<bar> \<le> (\<bar>0\<bar> + \<bar>r\<bar>) / 2 ^ 51"
      unfolding tv_def using xr by (intro units_step_error) simp_all
    have "parseInt (fromType req) \<noteq> NaN"
      using Si by (auto simp: matches_def seq_def)
    then have Tn: "?T (credit ?a ?new)"
      using tf by (simp add: matches_def seq_def credit_def)
    have gt: "getBalance balances (toFund req) (fromType req) = Fin 0"
      using None by (simp add: getBalance_idx)
    have "getBalance ?R (fromFund req) (fromType req) = Fin sv"
      using S2 il bal_s by (simp add: R getBalance_idx find_idx_append nth_append)
    moreover have "getBalance ?R (toFund req) (fromType req) = Fin tv"
      using T2 None Tn bal_n by (simp add: R getBalance_idx find_idx_append snoc_at_length)
    moreover have "balance_sum ?R = balance_sum balances + (sv - bv) + (tv - 0)"
      using sum2 bal_n by (simp add: R balance_sum_def)
    ultimately show ?thesis
      using gs gt r err_s err_t by auto
  next
    case (Some j)
    then have jl: "j < length balances" and Tj: "?T (balances ! j)"
      using find_idx_Some by blast+
    have ij: "i \<noteq> j"
      using Si Tj v(3) by (auto simp: matches_def seq_def)
    have R: "?R = ?ub2[j := credit ?a (?ub2 ! j)]"
      using transfer_closed_form [of req balances i] i Some copy by (simp add: Let_def)
    have "nav (balances ! j) = nav (balances ! i)"
      using navs [of "balances ! i" "balances ! j"] i Some by (simp add: find_find_idx)
    moreover have "well_formed (balances ! j)"
      using wf jl by simp
    ultimately obtain w where t: "units (balances ! j) = Fin w" "nav (balances ! j) = Fin n"
        "balance (balances ! j) = Fin (dbl (w * n))"
      using s by (auto simp: well_formed_iff)
    define bw where "bw = dbl (w * n)"
    define tv where "tv = dbl (dbl (w + x) * n)"
    have bal_t: "balance (credit ?a (balances ! j)) = Fin tv"
      using t r n0 by (simp add: credit_def tv_def x_def)
    have err_t: "\<bar>tv - (bw + r)\<bar> \<le> (\<bar>bw\<bar> + \<bar>r\<bar>) / 2 ^ 51"
      unfolding tv_def bw_def using xr dbl_error [of "w * n"]
      by (intro units_step_error) simp_all
    have gt: "getBalance balances (toFund req) (fromType req) = Fin bw"
      using Some t by (simp add: getBalance_idx bw_def)
    have "getBalance ?R (fromFund req) (fromType req) = Fin sv"
      using S2 il jl ij bal_s by (simp add: R getBalance_idx find_idx_update)
    moreover have "getBalance ?R (toFund req) (fromType req) = Fin tv"
      using T2 Some il jl ij bal_t by (simp add: R getBalance_idx find_idx_update)
    moreover have "balance_sum ?R = balance_sum balances + (sv - bv) + (tv - bw)"
      unfolding R using il jl ij sum2 bal_t t
      by (simp add: balance_sum_def sum_map_update bw_def)
    ultimately show ?thesis
      using gs gt r err_s err_t by auto
  qed
qed

section \<open>A reallocation, fund by fund\<close>

lemma sound_balance_fin: "sound_entry b \<Longrightarrow> is_fin (balance b)"
  by (auto simp: sound_entry_iff)

lemma reallocate_fund_eq:
  "reallocate_fund al T xs g =
     (if skipped (percentage_of al g) then xs
      else map (\<lambda>b. if seq (fundId b) (Fin (of_int (fund_id g)))
                     then rebalance (jdiv (jmul T (parseFloat (percentage_of al g))) (Fin 100))
                            (total_of (filter (\<lambda>b. seq (fundId b) (Fin (of_int (fund_id g)))) xs))
                            (length (filter (\<lambda>b. seq (fundId b) (Fin (of_int (fund_id g)))) xs)) b
                     else b) xs)"
  by (simp add: reallocate_fund_def skipped_def percentage_of_def rebalance_def Let_def
      calculateUnitsFromAmount_def calculateBalance_def split: option.splits)

lemma sound_rebalance:
  assumes "sound_entry b" and "is_fin target" and "is_fin tot" and "0 < len"
  shows "sound_entry (rebalance target tot len b)"
proof -
  obtain u n where b: "units b = Fin u" "nav b = Fin n" "n \<noteq> 0"
      "balance b = Fin (dbl (u * n))"
    using assms(1) by (auto simp: sound_entry_iff)
  obtain t f where t: "target = Fin t" "tot = Fin f"
    using assms(2,3) by (auto simp: is_fin_iff)
  show ?thesis
    using b t assms(4) by (simp add: sound_entry_iff rebalance_def Let_def)
qed

lemma reallocate_fund_sound:
  assumes "\<forall>b \<in> set xs. sound_entry b" and "is_fin T"
    and "skipped (percentage_of al g) \<or> is_fin (parseFloat (percentage_of al g))"
  shows "\<forall>b \<in> set (reallocate_fund al T xs g). sound_entry b"
proof (cases "skipped (percentage_of al g)")
  case True
  with assms(1) show ?thesis by (simp add: reallocate_fund_eq)
next
  case False
  let ?P = "\<lambda>b. seq (fundId b) (Fin (of_int (fund_id g)))"
  let ?target = "jdiv (jmul T (parseFloat (percentage_of al g))) (Fin 100)"
  have target: "is_fin ?target"
  proof -
    obtain r q where "T = Fin r" "parseFloat (percentage_of al g) = Fin q"
      using assms(2,3) False by (auto simp: is_fin_iff)
    then show ?thesis by simp
  qed
  have tot: "is_fin (total_of (filter ?P xs))"
    using assms(1) by (simp add: total_of_fin sound_balance_fin)
  have "sound_entry (rebalance ?target (total_of (filter ?P xs)) (length (filter ?P xs)) b)"
    if "b \<in> set xs" "?P b" for b
  proof -
    have "b \<in> set (filter ?P xs)"
      using that by simp
    then have "0 < length (filter ?P xs)"
      by (rule length_pos_if_in_set)
    with assms(1) that(1) target tot show ?thesis
      by (intro sound_rebalance) auto
  qed
  with assms(1) False show ?thesis
    by (auto simp: reallocate_fund_eq)
qed

lemma foldl_reallocate_sound:
  assumes "is_fin T"
    and "\<forall>g \<in> set gs. skipped (percentage_of al g) \<or> is_fin (parseFloat (percentage_of al g))"
    and "\<forall>b \<in> set xs. sound_entry b"
  shows "\<forall>b \<in> set (foldl (reallocate_fund al T) xs gs). sound_entry b"
  using assms(2,3)
proof (induction gs arbitrary: xs)
  case Nil
  then show ?case by simp
next
  case (Cons g gs)
  have "\<forall>b \<in> set (reallocate_fund al T xs g). sound_entry b"
    using Cons.prems assms(1) by (intro reallocate_fund_sound) auto
  with Cons.IH [of "reallocate_fund al T xs g"] Cons.prems(1) show ?case
    by simp
qed

lemma reallocation_sound:
  assumes "\<forall>b \<in> set balances. sound_entry b"
    and "\<forall>g \<in> set funds. skipped (percentage_of al g) \<or> is_fin (parseFloat (percentage_of al g))"
  shows "\<forall>b \<in> set (calculateReallocationPreview al balances funds). sound_entry b"
proof -
  have ub: "\<forall>b \<in> set (json_copy balances). sound_entry b"
    using assms(1) by (auto simp: json_copy_def sound_json_entry)
  then have "is_fin (total_of (json_copy balances))"
    by (simp add: total_of_fin sound_balance_fin)
  with assms(2) ub show ?thesis
    unfolding calculateReallocationPreview_def Let_def
    by (intro foldl_reallocate_sound)
qed


lemma in_fund_rebalance [simp]: "in_fund h (rebalance t f l b) = in_fund h b"
  by (simp add: in_fund_def rebalance_def Let_def)





section \<open>A reallocation and the total\<close>













section \<open>What the calculators guarantee\<close>

lemma inf_arith [simp]:
  "jadd (Fin a) PInf = PInf" "jadd PInf (Fin a) = PInf"
  "jmul PInf (Fin b) = (if b = 0 then NaN else if 0 < b then PInf else NInf)"
  "jmul (Fin b) PInf = (if b = 0 then NaN else if 0 < b then PInf else NInf)"
  "seq NaN x = False" "seq x NaN = False"
  by (auto simp: num_defs sgn_if zero_less_mult_iff)

lemmas transfer_eval = calculateTransferPreview_def json_copy_def json_entry_def json_num_def
  matches_def calculateUnitsFromAmount_def calculateBalance_def ex_parse Let_def


lemma getBalance_fin:
  "\<forall>b \<in> set bs. is_fin (balance b) \<Longrightarrow> is_fin (getBalance bs f t)"
  by (auto simp: getBalance_idx split: option.splits dest: find_idx_Some)

text \<open>
  C1, as stated, allows \<open>10\<^sup>-\<^sup>9\<close>, for every balance set and every accepted request.
  First, three million units at 11 dollars and a transfer of 12345 dollars: 12345 / 11 is
  not a double, the units are rounded twice and the new balance once, and the balance
  of the source ends \<open>2\<^sup>-\<^sup>2\<^sup>8\<close> below 32987655, which is more than \<open>10\<^sup>-\<^sup>9\<close>.
  Second, a target fund \<^verbatim>\<open>"abc"\<close>: the request is accepted, the entry created for it
  has the fund id NaN, and no lookup finds it. Third, a source whose balance is 999 for
  100 units at 10 dollars: the new balance is computed from the units, so it goes to
  800 and not to 799.
\<close>

theorem transfer_tolerance_counterexample:
  "validateTransfer (ex_transfer ''12345'') ex_large = \<lparr>valid = True, error = None\<rparr> \<and>
   list_all well_formed ex_large \<and>
   getBalance ex_large (Str ''1'') (Str ''1'') = Fin 33000000 \<and>
   getBalance (calculateTransferPreview (ex_transfer ''12345'') ex_large) (Str ''1'') (Str ''1'')
     = Fin (8855056212295679 / 268435456) \<and>
   (1 / 10 ^ 9 :: real) < \<bar>8855056212295679 / 268435456 - (33000000 - 12345)\<bar> \<and>
   validateTransfer
     \<lparr>fromFund = Str ''1'', fromType = Str ''1'', toFund = Str ''abc'', amount = Str ''200''\<rparr>
     ex_same_nav = \<lparr>valid = True, error = None\<rparr> \<and>
   getBalance (calculateTransferPreview
       \<lparr>fromFund = Str ''1'', fromType = Str ''1'', toFund = Str ''abc'', amount = Str ''200''\<rparr>
       ex_same_nav) (Str ''abc'') (Str ''1'') = Fin 0 \<and>
   validateTransfer (ex_transfer ''200'') ex_off = \<lparr>valid = True, error = None\<rparr> \<and>
   getBalance ex_off (Str ''1'') (Str ''1'') = Fin 999 \<and>
   getBalance (calculateTransferPreview (ex_transfer ''200'') ex_off) (Str ''1'') (Str ''1'')
     = Fin 800"
proof -
  have large: "validateTransfer (ex_transfer ''12345'') ex_large = \<lparr>valid = True, error = None\<rparr> \<and>
      list_all well_formed ex_large \<and>
      getBalance ex_large (Str ''1'') (Str ''1'') = Fin 33000000 \<and>
      getBalance (calculateTransferPreview (ex_transfer ''12345'') ex_large) (Str ''1'') (Str ''1'')
        = Fin (8855056212295679 / 268435456)"
    by (simp add: ex_large_def ex_defs transfer_eval validateTransfer_def getBalance_def
        truthy_def dbl_eval)
  have abc: "validateTransfer
        \<lparr>fromFund = Str ''1'', fromType = Str ''1'', toFund = Str ''abc'', amount = Str ''200''\<rparr>
        ex_same_nav = \<lparr>valid = True, error = None\<rparr> \<and>
      getBalance (calculateTransferPreview
        \<lparr>fromFund = Str ''1'', fromType = Str ''1'', toFund = Str ''abc'', amount = Str ''200''\<rparr>
        ex_same_nav) (Str ''abc'') (Str ''1'') = Fin 0"
    by (simp add: ex_same_nav_def ex_defs transfer_eval validateTransfer_def getBalance_def
        truthy_def)
  have off: "validateTransfer (ex_transfer ''200'') ex_off = \<lparr>valid = True, error = None\<rparr> \<and>
      getBalance ex_off (Str ''1'') (Str ''1'') = Fin 999 \<and>
      getBalance (calculateTransferPreview (ex_transfer ''200'') ex_off) (Str ''1'') (Str ''1'')
        = Fin 800"
    by (simp add: ex_off_def ex_defs transfer_eval validateTransfer_def getBalance_def
        truthy_def)
  from large abc off show ?thesis
    by simp
qed

text \<open>
  C1 (amended). Take a balance set of the data model (finite numbers, \<open>balance\<close> the
  product of \<open>units\<close> and \<open>nav\<close> as the code computes it), a request that
  \<open>validateTransfer\<close> accepts and whose target fund is a number, and let the target
  entry, where there is one, have the nav of the source entry. Then the amount is a
  finite number \<open>a\<close>; the balance that \<open>getBalance\<close> reads for the source fund and
  bucket goes from \<open>v\<close> to \<open>v - a\<close> up to \<open>(v + a) / 2\<^sup>5\<^sup>1\<close>; the one for the target
  fund and the same bucket goes from \<open>w\<close> (0 when the entry is new) to \<open>w + a\<close> up to
  \<open>(|w| + a) / 2\<^sup>5\<^sup>1\<close>; and the sum of all balances moves by at most
  \<open>(v + |w| + 2a) / 2\<^sup>5\<^sup>1\<close>. All three are within \<open>10\<^sup>-\<^sup>9\<close> when \<open>v\<close> and \<open>|w|\<close> are
  at most 500000.
\<close>

theorem transfer_conserves_balance:
  assumes "\<forall>b \<in> set balances. well_formed b"
    and "valid (validateTransfer req balances)"
    and "\<And>s t. find (matches (fromFund req) (fromType req)) balances = Some s \<Longrightarrow>
           find (matches (toFund req) (fromType req)) balances = Some t \<Longrightarrow> nav t = nav s"
    and "parseInt (toFund req) \<noteq> NaN"
  shows "\<exists>a v w v' w'. parseFloat (amount req) = Fin a
      \<and> getBalance balances (fromFund req) (fromType req) = Fin v
      \<and> getBalance balances (toFund req) (fromType req) = Fin w
      \<and> getBalance (calculateTransferPreview req balances) (fromFund req) (fromType req)
          = Fin v'
      \<and> getBalance (calculateTransferPreview req balances) (toFund req) (fromType req)
          = Fin w'
      \<and> \<bar>v' - (v - a)\<bar> \<le> (v + a) / 2 ^ 51
      \<and> \<bar>w' - (w + a)\<bar> \<le> (\<bar>w\<bar> + a) / 2 ^ 51
      \<and> \<bar>balance_sum (calculateTransferPreview req balances) - balance_sum balances\<bar>
          \<le> (v + \<bar>w\<bar> + 2 * a) / 2 ^ 51
      \<and> (v \<le> 500000 \<and> \<bar>w\<bar> \<le> 500000 \<longrightarrow>
           \<bar>v' - (v - a)\<bar> \<le> 1 / 10 ^ 9 \<and> \<bar>w' - (w + a)\<bar> \<le> 1 / 10 ^ 9
           \<and> \<bar>balance_sum (calculateTransferPreview req balances) - balance_sum balances\<bar>
               \<le> 1 / 10 ^ 9)"
proof -
  let ?R = "calculateTransferPreview req balances"
  obtain a v w v' w' where c: "parseFloat (amount req) = Fin a" "0 < a" "a \<le> v"
      "getBalance balances (fromFund req) (fromType req) = Fin v"
      "getBalance balances (toFund req) (fromType req) = Fin w"
      "getBalance ?R (fromFund req) (fromType req) = Fin v'"
      "getBalance ?R (toFund req) (fromType req) = Fin w'"
      "\<bar>v' - (v - a)\<bar> \<le> (\<bar>v\<bar> + \<bar>a\<bar>) / 2 ^ 51"
      "\<bar>w' - (w + a)\<bar> \<le> (\<bar>w\<bar> + \<bar>a\<bar>) / 2 ^ 51"
      "balance_sum ?R = balance_sum balances + (v' - v) + (w' - w)"
    using transfer_conserves [OF assms] by blast
  have s: "\<bar>v' - (v - a)\<bar> \<le> (v + a) / 2 ^ 51"
    and t: "\<bar>w' - (w + a)\<bar> \<le> (\<bar>w\<bar> + a) / 2 ^ 51"
    using c(2,3,8,9) by simp_all
  have "balance_sum ?R - balance_sum balances = (v' - (v - a)) + (w' - (w + a))"
    using c(10) by simp
  then have "\<bar>balance_sum ?R - balance_sum balances\<bar> \<le> (v + a) / 2 ^ 51 + (\<bar>w\<bar> + a) / 2 ^ 51"
    using s t by linarith
  then have u: "\<bar>balance_sum ?R - balance_sum balances\<bar> \<le> (v + \<bar>w\<bar> + 2 * a) / 2 ^ 51"
    by (simp add: add_divide_distrib)
  have "\<bar>v' - (v - a)\<bar> \<le> 1 / 10 ^ 9 \<and> \<bar>w' - (w + a)\<bar> \<le> 1 / 10 ^ 9
      \<and> \<bar>balance_sum ?R - balance_sum balances\<bar> \<le> 1 / 10 ^ 9"
    if "v \<le> 500000" "\<bar>w\<bar> \<le> 500000"
    using that s t u c(2,3) by simp
  with c(1,4,5,6,7) s t u show ?thesis
    by blast
qed

theorem transfer_conserves_balance_witness:
  "valid (validateTransfer (ex_transfer ''200'') ex_same_nav) \<and>
   getBalance ex_same_nav (Str ''1'') (Str ''1'') = Fin 1000 \<and>
   getBalance ex_same_nav (Str ''2'') (Str ''1'') = Fin 500 \<and>
   getBalance (calculateTransferPreview (ex_transfer ''200'') ex_same_nav) (Str ''1'') (Str ''1'')
     = Fin 800 \<and>
   getBalance (calculateTransferPreview (ex_transfer ''200'') ex_same_nav) (Str ''2'') (Str ''1'')
     = Fin 700 \<and>
   \<bar>balance_sum (calculateTransferPreview (ex_transfer ''200'') ex_same_nav)
      - balance_sum ex_same_nav\<bar> \<le> 1 / 10 ^ 9"
proof -
  have wf: "\<forall>b \<in> set ex_same_nav. well_formed b"
    by (simp add: ex_same_nav_def ex_defs seq_def)
  have ok: "valid (validateTransfer (ex_transfer ''200'') ex_same_nav)"
    by (simp add: ex_same_nav_def ex_defs validateTransfer_def getBalance_def matches_def
        ex_parse jle_def jgt_def)
  have navs: "find (matches (fromFund (ex_transfer ''200'')) (fromType (ex_transfer ''200'')))
        ex_same_nav = Some s \<Longrightarrow>
      find (matches (toFund (ex_transfer ''200'')) (fromType (ex_transfer ''200'')))
        ex_same_nav = Some t \<Longrightarrow> nav t = nav s" for s t
    by (auto simp: ex_same_nav_def ex_defs matches_def ex_parse)
  have tf: "parseInt (toFund (ex_transfer ''200'')) \<noteq> NaN"
    by (simp add: ex_defs ex_parse)
  have g: "getBalance ex_same_nav (Str ''1'') (Str ''1'') = Fin 1000"
    "getBalance ex_same_nav (Str ''2'') (Str ''1'') = Fin 500"
    by (simp_all add: ex_same_nav_def getBalance_def matches_def ex_parse)
  have r: "getBalance (calculateTransferPreview (ex_transfer ''200'') ex_same_nav)
        (Str ''1'') (Str ''1'') = Fin 800"
    "getBalance (calculateTransferPreview (ex_transfer ''200'') ex_same_nav)
        (Str ''2'') (Str ''1'') = Fin 700"
    by (simp_all add: ex_same_nav_def ex_defs transfer_eval getBalance_def)
  from transfer_conserves_balance [OF wf ok navs tf] show ?thesis
    using ok g r by (auto simp: ex_transfer_def)
qed




text \<open>
  C3, as stated, holds after any call. Here the second fund holds nothing and its nav is
  0, so the input satisfies the identity, and the validator accepts a transfer of 200
  dollars into it: the units of the target become 200 / 0, which is infinite, and its
  balance infinity times 0, which is NaN and equals nothing. A call that no validator
  has seen, with an amount that is not a number, does the same to the source.
\<close>

theorem invariant_counterexample:
  "inv_ok (ex_zero_nav ! 0) \<and> inv_ok (ex_zero_nav ! 1) \<and>
   validateTransfer (ex_transfer ''200'') ex_zero_nav = \<lparr>valid = True, error = None\<rparr> \<and>
   calculateTransferPreview (ex_transfer ''200'') ex_zero_nav ! 1
     = \<lparr>fundId = Fin 2, contributionTypeId = Fin 1, units = PInf, nav = Fin 0, balance = NaN\<rparr> \<and>
   \<not> inv_ok (calculateTransferPreview (ex_transfer ''200'') ex_zero_nav ! 1) \<and>
   calculateTransferPreview (ex_transfer ''abc'') ex_balances ! 0
     = \<lparr>fundId = Fin 1, contributionTypeId = Fin 1, units = NaN, nav = Fin 10, balance = NaN\<rparr> \<and>
   \<not> inv_ok (calculateTransferPreview (ex_transfer ''abc'') ex_balances ! 0)"
proof -
  have zero: "inv_ok (ex_zero_nav ! 0) \<and> inv_ok (ex_zero_nav ! 1) \<and>
      validateTransfer (ex_transfer ''200'') ex_zero_nav = \<lparr>valid = True, error = None\<rparr> \<and>
      calculateTransferPreview (ex_transfer ''200'') ex_zero_nav ! 1
        = \<lparr>fundId = Fin 2, contributionTypeId = Fin 1, units = PInf, nav = Fin 0,
           balance = NaN\<rparr>"
    by (simp add: ex_zero_nav_def ex_defs transfer_eval validateTransfer_def getBalance_def
        truthy_def inv_ok_def)
  have nan: "calculateTransferPreview (ex_transfer ''abc'') ex_balances ! 0
      = \<lparr>fundId = Fin 1, contributionTypeId = Fin 1, units = NaN, nav = Fin 10, balance = NaN\<rparr>"
    by (simp add: ex_defs transfer_eval jsub_def jadd_def jneg_def jdiv_def jmul_def)
  from zero nan show ?thesis
    by (simp add: inv_ok_def)
qed

text \<open>
  C3 (amended). Let units and nav of every entry be finite numbers, no nav be 0, and the
  balance of every entry be the product of its units and its nav. After
  \<open>calculateTransferPreview\<close> with an amount that parses to a finite number, and after
  \<open>calculateReallocationPreview\<close> with an allocation object whose percentages for the
  funds of the list are absent, empty or parse to finite numbers, every entry of the
  returned set is again of this kind: \<open>balance == units * nav\<close> holds in it, exactly.
\<close>

theorem previews_preserve_invariant:
  assumes "\<forall>b \<in> set balances. sound_entry b"
  shows "(is_fin (parseFloat (amount req)) \<longrightarrow>
            (\<forall>b \<in> set (calculateTransferPreview req balances). sound_entry b \<and> inv_ok b))
     \<and> ((\<forall>g \<in> set funds. skipped (percentage_of allocations g)
                            \<or> is_fin (parseFloat (percentage_of allocations g))) \<longrightarrow>
            (\<forall>b \<in> set (calculateReallocationPreview allocations balances funds).
               sound_entry b \<and> inv_ok b))"
  using transfer_sound [OF assms, of req] reallocation_sound [OF assms, of funds allocations]
  by (simp add: sound_entry_def)

theorem previews_preserve_invariant_witness:
  "list_all sound_entry ex_balances \<and>
   list_all inv_ok (calculateTransferPreview (ex_transfer ''200'') ex_balances) \<and>
   list_all inv_ok (calculateReallocationPreview [(''1'', Str ''25'')] ex_balances ex_funds)"
proof -
  let ?al = "[(''1'', Str ''25'')]"
  have s: "\<forall>b \<in> set ex_balances. sound_entry b"
    by (simp add: ex_defs sound_entry_def seq_def)
  have a: "is_fin (parseFloat (amount (ex_transfer ''200'')))"
    by (simp add: ex_defs ex_parse)
  have p: "\<forall>g \<in> set ex_funds. skipped (percentage_of ?al g)
      \<or> is_fin (parseFloat (percentage_of ?al g))"
    by (simp add: ex_funds_def percentage_of_def ex_show skipped_def ex_parse)
  from previews_preserve_invariant [OF s, of "ex_transfer ''200''" ex_funds ?al] a p s
  show ?thesis
    by (simp add: list_all_iff)
qed

section \<open>What a call leaves alone\<close>

lemma keeps_refl [simp]: "keeps s s"
  by (simp add: keeps_def)

lemma keeps_lengths: "keeps s s' \<Longrightarrow> length (objs s) \<le> length (objs s') \<and> length (arrs s) \<le> length (arrs s')"
  by (metis keeps_def length_take min.cobounded2 min_def nat_le_linear)

lemma keeps_set_obj: "keeps s s' \<Longrightarrow> length (objs s) \<le> r \<Longrightarrow> keeps s (set_obj s' r b)"
  by (simp add: keeps_def set_obj_def take_update_cancel)

lemma keeps_new_obj: "keeps s s' \<Longrightarrow> keeps s (fst (new_obj s' b))"
  using keeps_lengths [of s s'] by (simp add: keeps_def new_obj_def)

lemma keeps_new_arr: "keeps s s' \<Longrightarrow> keeps s (fst (new_arr s' rs))"
  using keeps_lengths [of s s'] by (simp add: keeps_def new_arr_def)

lemma keeps_push: "keeps s s' \<Longrightarrow> length (arrs s) \<le> a \<Longrightarrow> keeps s (push s' a r)"
  by (simp add: keeps_def push_def take_update_cancel)

lemma owned_set_obj:
  "owned s s' a \<Longrightarrow> length (objs s) \<le> r \<Longrightarrow> owned s (set_obj s' r b) a"
  by (auto simp: owned_def keeps_set_obj) (simp add: set_obj_def)

lemma owned_member:
  "owned s s' a \<Longrightarrow> r \<in> set (arrs s' ! a) \<Longrightarrow> length (objs s) \<le> r"
  by (simp add: owned_def list_all_iff)

lemma find_ref_member: "find_ref P s a = Some r \<Longrightarrow> r \<in> set (arrs s ! a)"
  by (auto simp: find_ref_def find_Some_iff)

lemma owned_find_ref:
  "owned s s' a \<Longrightarrow> find_ref P s' a = Some r \<Longrightarrow> length (objs s) \<le> r"
  using owned_member find_ref_member by blast

lemma copy_objs_owned:
  "keeps s s' \<Longrightarrow>
   keeps s (fst (copy_objs s' rs)) \<and> arrs (fst (copy_objs s' rs)) = arrs s' \<and>
   list_all (\<lambda>r. length (objs s) \<le> r) (snd (copy_objs s' rs))"
proof (induction rs arbitrary: s')
  case Nil
  then show ?case by simp
next
  case (Cons r rs)
  let ?s1 = "fst (new_obj s' (json_entry (obj s' r)))"
  have k: "keeps s ?s1"
    using Cons.prems by (rule keeps_new_obj)
  have "length (objs s) \<le> length (objs s')"
    using keeps_lengths [OF Cons.prems] by simp
  with Cons.IH [OF k] show ?case
    by (simp add: new_obj_def split_beta Let_def)
qed

lemma json_copy_st_owned:
  "owned s (fst (json_copy_st s a)) (snd (json_copy_st s a))"
proof -
  have c: "keeps s (fst (copy_objs s (arrs s ! a))) \<and>
      arrs (fst (copy_objs s (arrs s ! a))) = arrs s \<and>
      list_all (\<lambda>r. length (objs s) \<le> r) (snd (copy_objs s (arrs s ! a)))"
    by (rule copy_objs_owned) simp
  then show ?thesis
    by (simp add: json_copy_st_def owned_def split_beta new_arr_def keeps_def)
qed

lemma owned_keeps: "owned s s' a \<Longrightarrow> keeps s s'"
  by (simp add: owned_def)

lemma owned_new_push:
  assumes "owned s s' a"
  shows "owned s (push (fst (new_obj s' b)) a (snd (new_obj s' b))) a"
    and "length (objs s) \<le> snd (new_obj s' b)"
proof -
  have l: "length (objs s) \<le> length (objs s')"
    using assms keeps_lengths by (auto simp: owned_def)
  then show "length (objs s) \<le> snd (new_obj s' b)"
    by (simp add: new_obj_def)
  have "keeps s (push (fst (new_obj s' b)) a (snd (new_obj s' b)))"
    using assms by (simp add: owned_def keeps_push keeps_new_obj)
  moreover have "list_all (\<lambda>r. length (objs s) \<le> r)
      (arrs (push (fst (new_obj s' b)) a (snd (new_obj s' b))) ! a)"
    using assms l
    by (cases "a < length (arrs s')")
      (simp_all add: owned_def push_def new_obj_def list_update_beyond not_less)
  ultimately show "owned s (push (fst (new_obj s' b)) a (snd (new_obj s' b))) a"
    using assms by (simp add: owned_def)
qed

lemma transfer_st_owned:
  "owned s (fst (calculateTransferPreview_st req s a)) (snd (calculateTransferPreview_st req s a))"
proof -
  let ?s0 = "fst (json_copy_st s a)"
  let ?ub = "snd (json_copy_st s a)"
  have p0: "owned s ?s0 ?ub"
    by (rule json_copy_st_owned)
  show ?thesis
  proof (cases "find_ref (matches (fromFund req) (fromType req)) ?s0 ?ub")
    case None
    with p0 show ?thesis
      by (simp add: calculateTransferPreview_st_def split_beta)
  next
    case (Some src)
    then have src: "length (objs s) \<le> src"
      using p0 owned_find_ref by blast
    define s1 where "s1 = set_obj ?s0 src ((obj ?s0 src)
        \<lparr>units := jsub (units (obj ?s0 src))
           (calculateUnitsFromAmount (parseFloat (amount req)) (nav (obj ?s0 src)))\<rparr>)"
    define s2 where "s2 = set_obj s1 src ((obj s1 src)
        \<lparr>balance := calculateBalance (units (obj s1 src)) (nav (obj s1 src))\<rparr>)"
    have p2: "owned s s2 ?ub"
      unfolding s2_def s1_def using p0 src by (intro owned_set_obj)
    define targetNav where "targetNav =
        (case find_ref (matches (toFund req) (fromType req)) ?s0 ?ub of
           None \<Rightarrow> nav (obj ?s0 src)
         | Some t \<Rightarrow> if truthy (nav (obj ?s0 t)) then nav (obj ?s0 t) else nav (obj ?s0 src))"
    define new where "new = \<lparr>fundId = parseInt (toFund req),
        contributionTypeId = parseInt (fromType req), units = Fin 0, nav = targetNav,
        balance = Fin 0\<rparr>"
    define st where "st =
        (case find_ref (matches (toFund req) (fromType req)) s2 ?ub of
           Some t \<Rightarrow> (s2, t)
         | None \<Rightarrow> (push (fst (new_obj s2 new)) ?ub (snd (new_obj s2 new)), snd (new_obj s2 new)))"
    have p3: "owned s (fst st) ?ub \<and> length (objs s) \<le> snd st"
    proof (cases "find_ref (matches (toFund req) (fromType req)) s2 ?ub")
      case None
      then show ?thesis
        using owned_new_push [OF p2, of new] by (simp add: st_def)
    next
      case (Some t)
      then show ?thesis
        using p2 owned_find_ref [OF p2 Some] by (simp add: st_def)
    qed
    define s4 where "s4 = set_obj (fst st) (snd st) ((obj (fst st) (snd st))
        \<lparr>units := jadd (units (obj (fst st) (snd st)))
           (calculateUnitsFromAmount (parseFloat (amount req)) (nav (obj (fst st) (snd st))))\<rparr>)"
    define s5 where "s5 = set_obj s4 (snd st) ((obj s4 (snd st))
        \<lparr>balance := calculateBalance (units (obj s4 (snd st))) (nav (obj s4 (snd st)))\<rparr>)"
    have p5: "owned s s5 ?ub"
      unfolding s5_def s4_def using p3 by (intro owned_set_obj) simp_all
    have "calculateTransferPreview_st req s a = (s5, ?ub)"
      using Some
      by (simp add: calculateTransferPreview_st_def split_beta Let_def s5_def s4_def st_def
          new_def targetNav_def s2_def s1_def split: option.splits)
    with p5 show ?thesis by simp
  qed
qed

lemma adjust_balance_owned:
  "owned s s' a \<Longrightarrow> length (objs s) \<le> r \<Longrightarrow> owned s (adjust_balance t f l s' r) a"
  by (simp add: adjust_balance_def Let_def owned_set_obj)

lemma foldl_adjust_owned:
  "owned s s' a \<Longrightarrow> list_all (\<lambda>r. length (objs s) \<le> r) rs \<Longrightarrow>
   owned s (foldl (adjust_balance t f l) s' rs) a"
  by (induction rs arbitrary: s') (simp_all add: adjust_balance_owned)

lemma reallocate_fund_st_owned:
  assumes "owned s s' a"
  shows "owned s (reallocate_fund_st al T a s' g) a"
proof -
  have "list_all (\<lambda>r. length (objs s) \<le> r) (filter P (arrs s' ! a))" for P
    using assms by (simp add: owned_def list_all_iff)
  with assms show ?thesis
    by (simp add: reallocate_fund_st_def Let_def foldl_adjust_owned split: option.splits)
qed

lemma foldl_reallocate_st_owned:
  "owned s s' a \<Longrightarrow> owned s (foldl (reallocate_fund_st al T a) s' gs) a"
  by (induction gs arbitrary: s') (simp_all add: reallocate_fund_st_owned)

lemma reallocation_st_owned:
  "owned s (fst (calculateReallocationPreview_st al s a gs))
     (snd (calculateReallocationPreview_st al s a gs))"
  using json_copy_st_owned [of s a]
  by (simp add: calculateReallocationPreview_st_def split_beta Let_def foldl_reallocate_st_owned)

lemma keeps_read_set:
  assumes "keeps s s'" and "a < length (arrs s)"
    and "list_all (\<lambda>r. r < length (objs s)) (arrs s ! a)"
  shows "arrs s' ! a = arrs s ! a" and "read_set s' a = read_set s a"
proof -
  have "arrs s' ! a = take (length (arrs s)) (arrs s') ! a"
    using assms(2) by simp
  then show a: "arrs s' ! a = arrs s ! a"
    using assms(1) by (simp add: keeps_def)
  have "obj s' r = obj s r" if "r < length (objs s)" for r
  proof -
    have "objs s' ! r = take (length (objs s)) (objs s') ! r"
      using that by simp
    then show ?thesis
      using assms(1) by (simp add: keeps_def obj_def)
  qed
  then show "read_set s' a = read_set s a"
    using assms(3) by (simp add: read_set_def a list_all_iff)
qed

text \<open>
  C4. Let the array \<open>balances\<close> and the objects it refers to be in the store. After
  \<open>calculateTransferPreview\<close> and after \<open>calculateReallocationPreview\<close> every object
  and every array of the store before the call is where it was and as it was: the array
  \<open>balances\<close> has the elements it had, and the balance set read through it has, entry
  by entry and field by field, the values it had. Every assignment of the two functions
  goes to an object of the JSON copy or to the object they create, and \<^verbatim>\<open>push\<close> to the
  array of the copy.
\<close>

theorem previews_leave_input_unchanged:
  assumes "balances < length (arrs s)"
    and "list_all (\<lambda>r. r < length (objs s)) (arrs s ! balances)"
  shows "keeps s (fst (calculateTransferPreview_st req s balances))
     \<and> arrs (fst (calculateTransferPreview_st req s balances)) ! balances = arrs s ! balances
     \<and> read_set (fst (calculateTransferPreview_st req s balances)) balances = read_set s balances
     \<and> keeps s (fst (calculateReallocationPreview_st allocations s balances funds))
     \<and> arrs (fst (calculateReallocationPreview_st allocations s balances funds)) ! balances
         = arrs s ! balances
     \<and> read_set (fst (calculateReallocationPreview_st allocations s balances funds)) balances
         = read_set s balances"
proof -
  have t: "keeps s (fst (calculateTransferPreview_st req s balances))"
    using transfer_st_owned [of s req balances] by (simp add: owned_def)
  have r: "keeps s (fst (calculateReallocationPreview_st allocations s balances funds))"
    using reallocation_st_owned [of s allocations balances funds] by (simp add: owned_def)
  show ?thesis
    using t r keeps_read_set [OF t assms] keeps_read_set [OF r assms] by simp
qed

lemmas store_eval = calculateTransferPreview_st_def calculateReallocationPreview_st_def
  json_copy_st_def new_obj_def new_arr_def set_obj_def push_def obj_def find_ref_def
  reallocate_fund_st_def adjust_balance_def read_set_def json_entry_def json_num_def matches_def
  calculateUnitsFromAmount_def calculateBalance_def ex_parse ex_show Let_def split_beta

theorem previews_leave_input_unchanged_witness:
  "read_set ex_store 0 = ex_balances \<and>
   read_set (fst (calculateTransferPreview_st (ex_transfer ''200'') ex_store 0)) 0 = ex_balances \<and>
   read_set (fst (calculateTransferPreview_st (ex_transfer ''200'') ex_store 0))
     (snd (calculateTransferPreview_st (ex_transfer ''200'') ex_store 0))
     = calculateTransferPreview (ex_transfer ''200'') ex_balances \<and>
   read_set (fst (calculateReallocationPreview_st [(''1'', Str ''25''), (''2'', Str ''75'')]
                ex_store 0 ex_funds)) 0 = ex_balances"
proof -
  have 1: "0 < length (arrs ex_store)"
    and 2: "list_all (\<lambda>r. r < length (objs ex_store)) (arrs ex_store ! 0)"
    and 3: "read_set ex_store 0 = ex_balances"
    by (simp_all add: ex_store_def ex_balances_def read_set_def obj_def)
  have 4: "read_set (fst (calculateTransferPreview_st (ex_transfer ''200'') ex_store 0))
     (snd (calculateTransferPreview_st (ex_transfer ''200'') ex_store 0))
     = calculateTransferPreview (ex_transfer ''200'') ex_balances"
    by (simp add: ex_store_def ex_defs store_eval transfer_eval)
  from previews_leave_input_unchanged [OF 1 2, of "ex_transfer ''200''"
      "[(''1'', Str ''25''), (''2'', Str ''75'')]" ex_funds] 3 4
  show ?thesis by simp
qed

section \<open>The store and the values agree\<close>

lemma holds_split:
  assumes "holds n s a xs"
  obtains pre where "length pre = n" and "objs s = pre @ xs"
    and "a < length (arrs s)" and "arrs s ! a = [n ..< n + length xs]"
proof
  show "length (take n (objs s)) = n"
    using assms by (simp add: holds_def)
  have d: "drop n (objs s) = xs"
    using assms by (simp add: holds_def)
  show "objs s = take n (objs s) @ xs"
    unfolding d [symmetric] by simp
  show "a < length (arrs s)" "arrs s ! a = [n ..< n + length xs]"
    using assms by (simp_all add: holds_def)
qed

lemma holds_intro:
  "length pre = n \<Longrightarrow> objs s = pre @ xs \<Longrightarrow> a < length (arrs s) \<Longrightarrow>
   arrs s ! a = [n ..< n + length xs] \<Longrightarrow> holds n s a xs"
  by (simp add: holds_def)

lemma holds_obj:
  assumes "holds n s a xs" and "i < length xs"
  shows "obj s (n + i) = xs ! i"
proof -
  obtain pre where "length pre = n" "objs s = pre @ xs"
    using assms(1) by (rule holds_split)
  then show ?thesis
    by (auto simp: obj_def)
qed

lemma holds_read_set:
  assumes "holds n s a xs"
  shows "read_set s a = xs"
proof -
  obtain pre where p: "length pre = n" "objs s = pre @ xs" "arrs s ! a = [n ..< n + length xs]"
    using assms by (rule holds_split)
  show ?thesis
  proof (rule nth_equalityI)
    show "length (read_set s a) = length xs"
      using p by (simp add: read_set_def)
    show "read_set s a ! i = xs ! i" if "i < length (read_set s a)" for i
      using that p(3) holds_obj [OF assms, of i] by (simp add: read_set_def)
  qed
qed

lemma find_idx_map: "find_idx P (map f rs) = find_idx (\<lambda>r. P (f r)) rs"
  by (induction rs) auto

lemma holds_find_ref:
  assumes "holds n s a xs"
  shows "find_ref P s a = map_option (\<lambda>i. n + i) (find_idx P xs)"
proof -
  let ?rs = "[n ..< n + length xs]"
  have rs: "arrs s ! a = ?rs" and xs: "map (obj s) ?rs = xs"
    using assms holds_read_set [OF assms] by (simp_all add: holds_def read_set_def)
  have "find_ref P s a = map_option ((!) ?rs) (find_idx (\<lambda>r. P (obj s r)) ?rs)"
    by (simp add: find_ref_def rs find_find_idx)
  also have "find_idx (\<lambda>r. P (obj s r)) ?rs = find_idx P xs"
    using xs find_idx_map [of P "obj s" ?rs] by simp
  also have "map_option ((!) ?rs) (find_idx P xs) = map_option (\<lambda>i. n + i) (find_idx P xs)"
    by (cases "find_idx P xs") (auto dest: find_idx_Some)
  finally show ?thesis .
qed

lemma holds_set_obj:
  assumes "holds n s a xs" and "i < length xs"
  shows "holds n (set_obj s (n + i) b) a (xs[i := b])"
proof -
  obtain pre where p: "length pre = n" "objs s = pre @ xs" "a < length (arrs s)"
      "arrs s ! a = [n ..< n + length xs]"
    using assms(1) by (rule holds_split)
  have "objs (set_obj s (n + i) b) = pre @ xs[i := b]"
    using p(1,2) by (auto simp: set_obj_def list_update_append)
  with p show ?thesis
    by (intro holds_intro [of pre]) (simp_all add: set_obj_def)
qed

lemma holds_new_obj:
  assumes "holds n s a xs"
  shows "snd (new_obj s b) = n + length xs"
    and "holds n (push (fst (new_obj s b)) a (snd (new_obj s b))) a (xs @ [b])"
proof -
  obtain pre where p: "length pre = n" "objs s = pre @ xs" "a < length (arrs s)"
      "arrs s ! a = [n ..< n + length xs]"
    using assms(1) by (rule holds_split)
  show "snd (new_obj s b) = n + length xs"
    using p by (simp add: new_obj_def)
  show "holds n (push (fst (new_obj s b)) a (snd (new_obj s b))) a (xs @ [b])"
    using p by (intro holds_intro [of pre]) (simp_all add: new_obj_def push_def)
qed

lemma upt_add_Suc: "n # [Suc n..<Suc (n + k)] = [n..<Suc (n + k)]"
  by (simp add: upt_conv_Cons del: upt_Suc)

lemma copy_objs_result:
  "list_all (\<lambda>r. r < length (objs s)) rs \<Longrightarrow>
   objs (fst (copy_objs s rs)) = objs s @ map (\<lambda>r. json_entry (obj s r)) rs \<and>
   arrs (fst (copy_objs s rs)) = arrs s \<and>
   snd (copy_objs s rs) = [length (objs s) ..< length (objs s) + length rs]"
proof (induction rs arbitrary: s)
  case Nil
  show ?case by simp
next
  case (Cons r rs)
  let ?s1 = "fst (new_obj s (json_entry (obj s r)))"
  have l: "list_all (\<lambda>r. r < length (objs ?s1)) rs"
    using Cons.prems by (simp add: new_obj_def list_all_iff less_Suc_eq)
  have o: "obj ?s1 q = obj s q" if "q \<in> set rs" for q
    using Cons.prems that by (simp add: new_obj_def obj_def nth_append list_all_iff)
  have "map (\<lambda>q. json_entry (obj ?s1 q)) rs = map (\<lambda>q. json_entry (obj s q)) rs"
    using o by simp
  with Cons.IH [OF l] show ?case
    by (simp add: split_beta Let_def new_obj_def upt_add_Suc del: upt_Suc)
qed

lemma json_copy_st_holds:
  assumes "a < length (arrs s)" and "list_all (\<lambda>r. r < length (objs s)) (arrs s ! a)"
  shows "holds (length (objs s)) (fst (json_copy_st s a)) (snd (json_copy_st s a))
           (json_copy (read_set s a))"
  using copy_objs_result [OF assms(2)] assms(1)
  by (intro holds_intro [of "objs s"])
    (simp_all add: json_copy_st_def split_beta new_arr_def json_copy_def read_set_def comp_def
      nth_append)

lemma transfer_st_refines:
  assumes "a < length (arrs s)" and "list_all (\<lambda>r. r < length (objs s)) (arrs s ! a)"
  shows "read_set (fst (calculateTransferPreview_st req s a))
           (snd (calculateTransferPreview_st req s a))
         = calculateTransferPreview req (read_set s a)"
proof -
  let ?n = "length (objs s)"
  let ?s0 = "fst (json_copy_st s a)"
  let ?ub = "snd (json_copy_st s a)"
  let ?xs = "json_copy (read_set s a)"
  let ?amt = "parseFloat (amount req)"
  let ?S = "matches (fromFund req) (fromType req)"
  let ?T = "matches (toFund req) (fromType req)"
  have h0: "holds ?n ?s0 ?ub ?xs"
    using assms by (rule json_copy_st_holds)
  show ?thesis
  proof (cases "find_idx ?S ?xs")
    case None
    then have "find_ref ?S ?s0 ?ub = None"
      by (simp add: holds_find_ref [OF h0])
    with None show ?thesis
      by (simp add: calculateTransferPreview_st_def calculateTransferPreview_def split_beta
          holds_read_set [OF h0])
  next
    case (Some i)
    then have i: "i < length ?xs"
      using find_idx_Some by blast
    have src: "find_ref ?S ?s0 ?ub = Some (?n + i)"
      using Some by (simp add: holds_find_ref [OF h0])
    have o0: "obj ?s0 (?n + i) = ?xs ! i"
      using h0 i by (rule holds_obj)
    define ub1 where "ub1 = ?xs[i := (?xs ! i)
        \<lparr>units := jsub (units (?xs ! i)) (calculateUnitsFromAmount ?amt (nav (?xs ! i)))\<rparr>]"
    define s1 where "s1 = set_obj ?s0 (?n + i) ((obj ?s0 (?n + i))
        \<lparr>units := jsub (units (obj ?s0 (?n + i)))
           (calculateUnitsFromAmount ?amt (nav (obj ?s0 (?n + i))))\<rparr>)"
    have h1: "holds ?n s1 ?ub ub1"
      unfolding s1_def ub1_def o0 using h0 i by (rule holds_set_obj)
    have i1: "i < length ub1"
      using i by (simp add: ub1_def)
    have o1: "obj s1 (?n + i) = ub1 ! i"
      using h1 i1 by (rule holds_obj)
    define ub2 where "ub2 = ub1[i := (ub1 ! i)
        \<lparr>balance := calculateBalance (units (ub1 ! i)) (nav (ub1 ! i))\<rparr>]"
    define s2 where "s2 = set_obj s1 (?n + i) ((obj s1 (?n + i))
        \<lparr>balance := calculateBalance (units (obj s1 (?n + i))) (nav (obj s1 (?n + i)))\<rparr>)"
    have h2: "holds ?n s2 ?ub ub2"
      unfolding s2_def ub2_def o1 using h1 i1 by (rule holds_set_obj)
    define targetNav where "targetNav =
        (case find ?T ?xs of
           None \<Rightarrow> nav (?xs ! i)
         | Some t \<Rightarrow> if truthy (nav t) then nav t else nav (?xs ! i))"
    have tn: "(case find_ref ?T ?s0 ?ub of
           None \<Rightarrow> nav (obj ?s0 (?n + i))
         | Some t \<Rightarrow> if truthy (nav (obj ?s0 t)) then nav (obj ?s0 t)
                     else nav (obj ?s0 (?n + i))) = targetNav"
    proof (cases "find_idx ?T ?xs")
      case None
      then show ?thesis
        by (simp add: holds_find_ref [OF h0] targetNav_def find_find_idx o0)
    next
      case (Some j)
      then have "j < length ?xs"
        using find_idx_Some by blast
      then have "obj ?s0 (?n + j) = ?xs ! j"
        using h0 holds_obj by blast
      with Some show ?thesis
        by (simp add: holds_find_ref [OF h0] targetNav_def find_find_idx o0)
    qed
    define new where "new = \<lparr>fundId = parseInt (toFund req),
        contributionTypeId = parseInt (fromType req), units = Fin 0, nav = targetNav,
        balance = Fin 0\<rparr>"
    define ub3 where "ub3 = (case find_idx ?T ub2 of Some j \<Rightarrow> ub2 | None \<Rightarrow> ub2 @ [new])"
    define j where "j = (case find_idx ?T ub2 of Some j \<Rightarrow> j | None \<Rightarrow> length ub2)"
    define st where "st =
        (case find_ref ?T s2 ?ub of
           Some t \<Rightarrow> (s2, t)
         | None \<Rightarrow> (push (fst (new_obj s2 new)) ?ub (snd (new_obj s2 new)), snd (new_obj s2 new)))"
    have h3: "holds ?n (fst st) ?ub ub3 \<and> snd st = ?n + j \<and> j < length ub3"
    proof (cases "find_idx ?T ub2")
      case None
      then show ?thesis
        using holds_new_obj [OF h2, of new]
        by (simp add: st_def ub3_def j_def holds_find_ref [OF h2])
    next
      case (Some k)
      then have "k < length ub2"
        using find_idx_Some by blast
      with Some h2 show ?thesis
        by (simp add: st_def ub3_def j_def holds_find_ref [OF h2])
    qed
    then have o3: "obj (fst st) (snd st) = ub3 ! j"
      using holds_obj [of ?n "fst st" ?ub ub3 j] by simp
    define ub4 where "ub4 = ub3[j := (ub3 ! j)
        \<lparr>units := jadd (units (ub3 ! j)) (calculateUnitsFromAmount ?amt (nav (ub3 ! j)))\<rparr>]"
    define s4 where "s4 = set_obj (fst st) (snd st) ((obj (fst st) (snd st))
        \<lparr>units := jadd (units (obj (fst st) (snd st)))
           (calculateUnitsFromAmount ?amt (nav (obj (fst st) (snd st))))\<rparr>)"
    have h4: "holds ?n s4 ?ub ub4"
      unfolding s4_def ub4_def o3 using h3 by (simp add: holds_set_obj)
    have j4: "j < length ub4"
      using h3 by (simp add: ub4_def)
    have o4: "obj s4 (snd st) = ub4 ! j"
      using h3 holds_obj [OF h4 j4] by simp
    define ub5 where "ub5 = ub4[j := (ub4 ! j)
        \<lparr>balance := calculateBalance (units (ub4 ! j)) (nav (ub4 ! j))\<rparr>]"
    define s5 where "s5 = set_obj s4 (snd st) ((obj s4 (snd st))
        \<lparr>balance := calculateBalance (units (obj s4 (snd st))) (nav (obj s4 (snd st)))\<rparr>)"
    have h5: "holds ?n s5 ?ub ub5"
      unfolding s5_def ub5_def o4 using h4 j4 h3 by (simp add: holds_set_obj)
    have st_eq: "calculateTransferPreview_st req s a = (s5, ?ub)"
      using src tn
      by (cases "find_ref ?T s2 ?ub")
        (simp_all add: calculateTransferPreview_st_def split_beta Let_def s5_def s4_def st_def
          new_def s2_def s1_def)
    have val_eq: "calculateTransferPreview req (read_set s a) = ub5"
      using Some
      by (cases "find_idx ?T ub2")
        (simp_all add: calculateTransferPreview_def Let_def ub5_def ub4_def ub3_def j_def new_def
          targetNav_def ub2_def ub1_def)
    show ?thesis
      using holds_read_set [OF h5] by (simp add: st_eq val_eq)
  qed
qed

lemma set_obj_twice: "set_obj (set_obj s r b) r c = set_obj s r c"
  by (simp add: set_obj_def)

lemma obj_set_obj: "r < length (objs s) \<Longrightarrow> obj (set_obj s r b) r = b"
  by (simp add: set_obj_def obj_def)

lemma adjust_balance_eq:
  "r < length (objs s) \<Longrightarrow>
   adjust_balance t f l s r = set_obj s r (rebalance t f l (obj s r))"
  by (simp add: adjust_balance_def rebalance_def Let_def set_obj_twice obj_set_obj
      calculateUnitsFromAmount_def calculateBalance_def)

lemma foldl_adjust_objs:
  assumes "distinct rs" and "list_all (\<lambda>r. r < length (objs s)) rs"
  shows "length (objs (foldl (adjust_balance t f l) s rs)) = length (objs s) \<and>
         arrs (foldl (adjust_balance t f l) s rs) = arrs s \<and>
         (\<forall>q < length (objs s). objs (foldl (adjust_balance t f l) s rs) ! q =
            (if q \<in> set rs then rebalance t f l (objs s ! q) else objs s ! q))"
  using assms
proof (induction rs arbitrary: s)
  case Nil
  show ?case by simp
next
  case (Cons r rs)
  let ?s1 = "set_obj s r (rebalance t f l (obj s r))"
  have r: "r < length (objs s)" "r \<notin> set rs"
    using Cons.prems by simp_all
  have s1: "adjust_balance t f l s r = ?s1"
    using r(1) by (rule adjust_balance_eq)
  have l: "list_all (\<lambda>q. q < length (objs ?s1)) rs" and d: "distinct rs"
    using Cons.prems by (simp_all add: set_obj_def)
  note IH = Cons.IH [OF d l]
  show ?case
    using IH r by (auto simp: s1 set_obj_def obj_def nth_list_update)
qed

lemma foldl_balance_map:
  "foldl (\<lambda>sum r. jadd sum (balance (f r))) z rs = foldl (\<lambda>sum b. jadd sum (balance b)) z (map f rs)"
  by (induction rs arbitrary: z) simp_all

lemma reallocate_fund_st_holds:
  assumes h: "holds n s a xs"
  shows "holds n (reallocate_fund_st al T a s g) a (reallocate_fund al T xs g)"
proof (cases "skipped (percentage_of al g)")
  case True
  then show ?thesis
    using h by (auto simp: reallocate_fund_st_def reallocate_fund_eq skipped_def
        percentage_of_def split: option.splits)
next
  case False
  obtain pre where p: "length pre = n" "objs s = pre @ xs" "a < length (arrs s)"
      "arrs s ! a = [n ..< n + length xs]"
    using h by (rule holds_split)
  let ?P = "\<lambda>b. seq (fundId b) (Fin (of_int (fund_id g)))"
  let ?rs = "[n ..< n + length xs]"
  let ?fb = "filter (\<lambda>r. ?P (obj s r)) ?rs"
  let ?t = "jdiv (jmul T (parseFloat (percentage_of al g))) (Fin 100)"
  have xs: "map (obj s) ?rs = xs"
    using holds_read_set [OF h] p(4) by (simp add: read_set_def)
  have "filter ?P (map (obj s) ?rs) = map (obj s) (filter (?P \<circ> obj s) ?rs)"
    by (rule filter_map)
  then have fb: "map (obj s) ?fb = filter ?P xs"
    by (simp add: xs comp_def)
  have len: "length ?fb = length (filter ?P xs)"
    using arg_cong [OF fb, of length] by simp
  have tot: "foldl (\<lambda>sum r. jadd sum (balance (obj s r))) (Fin 0) ?fb = total_of (filter ?P xs)"
    by (simp only: foldl_balance_map [of "obj s"] fb total_of_def)
  let ?F = "rebalance ?t (total_of (filter ?P xs)) (length (filter ?P xs))"
  let ?R = "foldl (adjust_balance ?t (total_of (filter ?P xs)) (length (filter ?P xs))) s ?fb"
  have st: "reallocate_fund_st al T a s g = ?R"
    using False
    by (simp add: reallocate_fund_st_def skipped_def percentage_of_def Let_def p(4) tot len
        split: option.splits)
  have vl: "reallocate_fund al T xs g = map (\<lambda>b. if ?P b then ?F b else b) xs"
    using False by (simp add: reallocate_fund_eq)
  have "distinct ?fb" and "list_all (\<lambda>r. r < length (objs s)) ?fb"
    using p(1,2) by (simp_all add: list_all_iff)
  note R = foldl_adjust_objs [OF this, of ?t "total_of (filter ?P xs)" "length (filter ?P xs)"]
  have "objs ?R = pre @ map (\<lambda>b. if ?P b then ?F b else b) xs"
  proof (rule nth_equalityI)
    show "length (objs ?R) = length (pre @ map (\<lambda>b. if ?P b then ?F b else b) xs)"
      using R p(2) by simp
    show "objs ?R ! q = (pre @ map (\<lambda>b. if ?P b then ?F b else b) xs) ! q"
      if "q < length (objs ?R)" for q
    proof (cases "q < n")
      case True
      then have "q \<notin> set ?fb"
        by simp
      with True R p(1,2) show ?thesis
        by (simp add: nth_append)
    next
      case False
      have "q < n + length xs"
        using that R p(1,2) by simp
      with False obtain i where i: "q = n + i" "i < length xs"
        by (intro that [of "q - n"]) simp_all
      then have "obj s q = xs ! i"
        using h holds_obj by blast
      then have "q \<in> set ?fb \<longleftrightarrow> ?P (xs ! i)"
        using i by simp
      moreover have "objs s ! q = xs ! i"
        using i p(1,2) by (simp add: nth_append)
      ultimately show ?thesis
        using R i p(1,2) by (simp add: nth_append)
    qed
  qed
  then have "holds n ?R a (map (\<lambda>b. if ?P b then ?F b else b) xs)"
    using p R by (intro holds_intro [of pre]) simp_all
  then show ?thesis
    by (simp add: st vl)
qed

lemma foldl_reallocate_st_holds:
  "holds n s a xs \<Longrightarrow>
   holds n (foldl (reallocate_fund_st al T a) s gs) a (foldl (reallocate_fund al T) xs gs)"
  by (induction gs arbitrary: s xs) (simp_all add: reallocate_fund_st_holds)

lemma reallocation_st_refines:
  assumes "a < length (arrs s)" and "list_all (\<lambda>r. r < length (objs s)) (arrs s ! a)"
  shows "read_set (fst (calculateReallocationPreview_st al s a gs))
           (snd (calculateReallocationPreview_st al s a gs))
         = calculateReallocationPreview al (read_set s a) gs"
proof -
  let ?s0 = "fst (json_copy_st s a)"
  let ?ub = "snd (json_copy_st s a)"
  let ?xs = "json_copy (read_set s a)"
  have h0: "holds (length (objs s)) ?s0 ?ub ?xs"
    using assms by (rule json_copy_st_holds)
  have "map (obj ?s0) (arrs ?s0 ! ?ub) = ?xs"
    using holds_read_set [OF h0] by (simp add: read_set_def)
  then have "foldl (\<lambda>sum r. jadd sum (balance (obj ?s0 r))) (Fin 0) (arrs ?s0 ! ?ub)
      = total_of ?xs"
    by (simp only: foldl_balance_map [of "obj ?s0"] total_of_def)
  then show ?thesis
    using holds_read_set [OF foldl_reallocate_st_holds [OF h0]]
    by (simp add: calculateReallocationPreview_st_def calculateReallocationPreview_def
        split_beta Let_def)
qed

end
